theory Spec2Isabelle
  imports
    Complex_Main
    "HOL-Library.Char_ord"
    "HOL-Library.List_Lexorder"
    "HOL-Library.Product_Lexorder"
begin

section \<open>The priority message queue (message\_queue.py)\<close>

text \<open>
  The embedding follows \<^verbatim>\<open>src/src/message_queue.py\<close>. A \<^verbatim>\<open>datetime\<close> is an
  integer number of microseconds, and every call of \<^verbatim>\<open>datetime.now()\<close> is an explicit
  argument \<open>now\<close>. The message id, which the source computes as
  \<^verbatim>\<open>str(abs(hash(f"{message}{datetime.now()}")))\<close> with Python's per-process salted
  string hash, is an argument of \<open>enqueue\<close> chosen by the environment.
\<close>

datatype MessagePriority = CRITICAL | HIGH | MEDIUM | LOW

fun priority_value :: "MessagePriority \<Rightarrow> int" where
  "priority_value CRITICAL = 0"
| "priority_value HIGH = 1"
| "priority_value MEDIUM = 2"
| "priority_value LOW = 3"

text \<open>Iterating over the enum (\<^verbatim>\<open>for priority in MessagePriority\<close>) follows definition order.\<close>

definition all_priorities :: "MessagePriority list" where
  "all_priorities = [CRITICAL, HIGH, MEDIUM, LOW]"

datatype MessageState = PENDING | PROCESSING | COMPLETED | FAILED | RETRYING

record 'c QueueMessage =
  msg_id :: string
  content :: 'c
  priority :: MessagePriority
  timestamp :: int
  retries :: int
  processing_started :: "int option"
  processing_completed :: "int option"
  error :: "string option"

text \<open>
  \<^verbatim>\<open>QueueStats\<close>. The two \<^verbatim>\<open>defaultdict(int)\<close> fields are total functions (a missing
  key reads as 0). Processing times are durations in microseconds.
\<close>

record QueueStats =
  total_received :: int
  total_processed :: int
  total_failed :: int
  total_retried :: int
  processing_times :: "int list"
  states :: "MessageState \<Rightarrow> int"
  priority_counts :: "MessagePriority \<Rightarrow> int"

definition QueueStats_init :: QueueStats where
  "QueueStats_init =
     \<lparr>total_received = 0, total_processed = 0, total_failed = 0, total_retried = 0,
      processing_times = [], states = (\<lambda>_. 0), priority_counts = (\<lambda>_. 0)\<rparr>"

definition update_processing_time :: "int \<Rightarrow> QueueStats \<Rightarrow> QueueStats" where
  "update_processing_time duration st =
     (let ts = processing_times st @ [duration]
      in st\<lparr>processing_times := (if length ts > 1000 then tl ts else ts)\<rparr>)"

subsection \<open>asyncio.PriorityQueue\<close>

text \<open>
  Each per-class queue is an \<^verbatim>\<open>asyncio.PriorityQueue\<close> holding tuples
  \<^verbatim>\<open>(priority.value, message_id)\<close>: a binary heap (\<^verbatim>\<open>heapq\<close>) whose \<^verbatim>\<open>get\<close> removes a
  least tuple. Tuples compare lexicographically and strings by code point, a total order
  in which equal tuples are indistinguishable, so the heap is observationally the sorted
  list of its entries: \<open>put\<close> is an ordered insertion and \<open>get\<close> takes the head.
  \<^verbatim>\<open>put\<close> on a full queue (\<^verbatim>\<open>maxsize > 0\<close> and \<^verbatim>\<open>qsize() >= maxsize\<close>) suspends the
  caller until another task removes an entry.
\<close>

type_synonym entry = "int \<times> string"

definition pq_empty :: "entry list \<Rightarrow> bool" where
  "pq_empty h = (h = [])"

definition pq_full :: "int \<Rightarrow> entry list \<Rightarrow> bool" where
  "pq_full maxsize h = (maxsize > 0 \<and> int (length h) \<ge> maxsize)"

definition pq_put :: "entry \<Rightarrow> entry list \<Rightarrow> entry list" where
  "pq_put e h = insort e h"

subsection \<open>PriorityMessageQueue\<close>

record 'c PriorityMessageQueue =
  max_size :: int
  max_retries :: int
  processing_timeout :: int
  batch_size :: int
  queues :: "MessagePriority \<Rightarrow> entry list"
  messages :: "string \<rightharpoonup> 'c QueueMessage"
  message_states :: "string \<rightharpoonup> MessageState"
  stats :: QueueStats

definition PriorityMessageQueue_init ::
  "int \<Rightarrow> int \<Rightarrow> int \<Rightarrow> int \<Rightarrow> 'c PriorityMessageQueue" where
  "PriorityMessageQueue_init maxsize maxretries timeout batch =
     \<lparr>max_size = maxsize, max_retries = maxretries, processing_timeout = timeout,
      batch_size = batch, queues = (\<lambda>_. []), messages = Map.empty,
      message_states = Map.empty, stats = QueueStats_init\<rparr>"

text \<open>
  How a call ends: it returns a value, raises, or is suspended in \<^verbatim>\<open>await put\<close> on a
  full queue. The queue after the call is returned beside the outcome, since the
  source mutates it in place before raising or suspending.
\<close>

datatype exn = TypeError | KeyError | AttributeError | IndexError

datatype 'a outcome = Returned 'a | Raised exn | Blocked

definition update_message_state ::
  "string \<Rightarrow> MessageState \<Rightarrow> 'c PriorityMessageQueue \<Rightarrow> 'c PriorityMessageQueue" where
  "update_message_state message_id new_state q =
     (let st = stats q;
          st1 = (case message_states q message_id of
                   Some old_state \<Rightarrow> st\<lparr>states := (states st)(old_state := states st old_state - 1)\<rparr>
                 | None \<Rightarrow> st);
          st2 = st1\<lparr>states := (states st1)(new_state := states st1 new_state + 1)\<rparr>
      in q\<lparr>message_states := (message_states q)(message_id \<mapsto> new_state), stats := st2\<rparr>)"

definition enqueue ::
  "string \<Rightarrow> int \<Rightarrow> 'c \<Rightarrow> MessagePriority \<Rightarrow> 'c PriorityMessageQueue
     \<Rightarrow> string outcome \<times> 'c PriorityMessageQueue" where
  "enqueue message_id now message prio q =
     (let queue_message =
            \<lparr>msg_id = message_id, content = message, priority = prio, timestamp = now,
             retries = 0, processing_started = None, processing_completed = None,
             error = None\<rparr>;
          q1 = q\<lparr>messages := (messages q)(message_id \<mapsto> queue_message),
                 message_states := (message_states q)(message_id \<mapsto> PENDING)\<rparr>
      in if pq_full (max_size q1) (queues q1 prio) then (Blocked, q1)
         else
           (let q2 = q1\<lparr>queues := (queues q1)
                          (prio := pq_put (priority_value prio, message_id) (queues q1 prio))\<rparr>;
                st = stats q2;
                st' = st\<lparr>total_received := total_received st + 1,
                         priority_counts := (priority_counts st)(prio := priority_counts st prio + 1),
                         states := (states st)(PENDING := states st PENDING + 1)\<rparr>
            in (Returned message_id, q2\<lparr>stats := st'\<rparr>)))"

text \<open>
  \<^verbatim>\<open>dequeue\<close>: the loop over the classes. A class whose popped id is not in
  \<^verbatim>\<open>self.messages\<close> raises \<^verbatim>\<open>KeyError\<close> inside the \<^verbatim>\<open>try\<close>; the handler logs it and the
  loop goes on with the next class, the entry already removed. The returned message is
  the stored object itself, so the stamp of \<^verbatim>\<open>processing_started\<close> is in both.
\<close>

fun dequeue_loop ::
  "int \<Rightarrow> MessagePriority list \<Rightarrow> 'c PriorityMessageQueue
     \<Rightarrow> 'c QueueMessage option \<times> 'c PriorityMessageQueue" where
  "dequeue_loop now [] q = (None, q)"
| "dequeue_loop now (p # ps) q =
     (if pq_empty (queues q p) then dequeue_loop now ps q
      else
        (let message_id = snd (hd (queues q p));
             q1 = q\<lparr>queues := (queues q)(p := tl (queues q p))\<rparr>
         in case messages q1 message_id of
              None \<Rightarrow> dequeue_loop now ps q1
            | Some message \<Rightarrow>
                (let q2 = update_message_state message_id PROCESSING q1;
                     message' = message\<lparr>processing_started := Some now\<rparr>
                 in (Some message', q2\<lparr>messages := (messages q2)(message_id \<mapsto> message')\<rparr>))))"

definition dequeue ::
  "int \<Rightarrow> 'c PriorityMessageQueue \<Rightarrow> 'c QueueMessage option \<times> 'c PriorityMessageQueue" where
  "dequeue now q = dequeue_loop now all_priorities q"

text \<open>
  \<^verbatim>\<open>mark_completed\<close>. The subtraction
  \<^verbatim>\<open>message.processing_completed - message.processing_started\<close> raises \<^verbatim>\<open>TypeError\<close>
  when the message was never dequeued (\<^verbatim>\<open>processing_started\<close> is \<^verbatim>\<open>None\<close>), after
  \<^verbatim>\<open>processing_completed\<close> has been stamped.
\<close>

definition mark_completed ::
  "string \<Rightarrow> int \<Rightarrow> 'c PriorityMessageQueue \<Rightarrow> unit outcome \<times> 'c PriorityMessageQueue" where
  "mark_completed message_id now q =
     (case messages q message_id of
        None \<Rightarrow> (Returned (), q)
      | Some message \<Rightarrow>
          (let message' = message\<lparr>processing_completed := Some now\<rparr>;
               q1 = q\<lparr>messages := (messages q)(message_id \<mapsto> message')\<rparr>
           in case processing_started message' of
                None \<Rightarrow> (Raised TypeError, q1)
              | Some started \<Rightarrow>
                  (let processing_time = now - started;
                       st = update_processing_time processing_time (stats q1);
                       q2 = q1\<lparr>stats := st\<lparr>total_processed := total_processed st + 1\<rparr>\<rparr>
                   in (Returned (), update_message_state message_id COMPLETED q2))))"

definition mark_failed ::
  "string \<Rightarrow> string \<Rightarrow> 'c PriorityMessageQueue \<Rightarrow> unit outcome \<times> 'c PriorityMessageQueue" where
  "mark_failed message_id err q =
     (case messages q message_id of
        None \<Rightarrow> (Returned (), q)
      | Some message \<Rightarrow>
          (let message1 = message\<lparr>error := Some err\<rparr>
           in if retries message1 < max_retries q then
                (let message2 = message1\<lparr>retries := retries message1 + 1\<rparr>;
                     q1 = q\<lparr>messages := (messages q)(message_id \<mapsto> message2)\<rparr>;
                     q2 = update_message_state message_id RETRYING q1;
                     p = priority message2
                 in if pq_full (max_size q2) (queues q2 p) then (Blocked, q2)
                    else
                      (let q3 = q2\<lparr>queues := (queues q2)
                                      (p := pq_put (priority_value p, message_id) (queues q2 p))\<rparr>;
                           st = stats q3
                       in (Returned (), q3\<lparr>stats := st\<lparr>total_retried := total_retried st + 1\<rparr>\<rparr>)))
              else
                (let q1 = q\<lparr>messages := (messages q)(message_id \<mapsto> message1)\<rparr>;
                     q2 = update_message_state message_id FAILED q1;
                     st = stats q2
                 in (Returned (), q2\<lparr>stats := st\<lparr>total_failed := total_failed st + 1\<rparr>\<rparr>))))"

section \<open>Call sequences, the calling protocol and the invariant\<close>

text \<open>
  A caller's sequence of calls is a list of operations, each with the arguments the
  environment supplies (the id that \<^verbatim>\<open>enqueue\<close> computes, the clock readings).
  \<open>run\<close> performs them in order on the queue object.
\<close>

datatype 'c op =
    Enqueue string int 'c MessagePriority
  | Dequeue int
  | MarkCompleted string int
  | MarkFailed string string

fun step :: "'c op \<Rightarrow> 'c PriorityMessageQueue \<Rightarrow> 'c PriorityMessageQueue" where
  "step (Enqueue message_id now message prio) q = snd (enqueue message_id now message prio q)"
| "step (Dequeue now) q = snd (dequeue now q)"
| "step (MarkCompleted message_id now) q = snd (mark_completed message_id now q)"
| "step (MarkFailed message_id err) q = snd (mark_failed message_id err q)"

fun run :: "'c PriorityMessageQueue \<Rightarrow> 'c op list \<Rightarrow> 'c PriorityMessageQueue" where
  "run q [] = q"
| "run q (x # xs) = run (step x q) xs"

text \<open>
  The calling protocol of the pipeline, as a decidable condition on a call in a given
  queue: \<^verbatim>\<open>enqueue\<close> is given an id that is not tracked yet, no \<^verbatim>\<open>put\<close> meets a full
  class queue (so no call is suspended), and \<^verbatim>\<open>mark_completed\<close> and \<^verbatim>\<open>mark_failed\<close>
  are called on a message that is PROCESSING, that is, one a worker holds after
  \<^verbatim>\<open>dequeue\<close>. The source checks none of this.
\<close>

fun op_in_protocol :: "'c op \<Rightarrow> 'c PriorityMessageQueue \<Rightarrow> bool" where
  "op_in_protocol (Enqueue message_id now message prio) q =
     (messages q message_id = None \<and> message_states q message_id = None \<and>
      \<not> pq_full (max_size q) (queues q prio))"
| "op_in_protocol (Dequeue now) q = True"
| "op_in_protocol (MarkCompleted message_id now) q =
     (message_states q message_id = Some PROCESSING)"
| "op_in_protocol (MarkFailed message_id err) q =
     (message_states q message_id = Some PROCESSING \<and>
      (case messages q message_id of
         None \<Rightarrow> True
       | Some m \<Rightarrow> retries m < max_retries q \<longrightarrow>
                    \<not> pq_full (max_size q) (queues q (priority m))))"

fun in_protocol :: "'c PriorityMessageQueue \<Rightarrow> 'c op list \<Rightarrow> bool" where
  "in_protocol q [] = True"
| "in_protocol q (x # xs) = (op_in_protocol x q \<and> in_protocol (step x q) xs)"

text \<open>
  The invariant of the queues reached within the protocol. A message is waiting when it
  is PENDING or RETRYING; these are the messages that have an entry in a class queue.
\<close>

definition waiting :: "'c PriorityMessageQueue \<Rightarrow> string \<Rightarrow> bool" where
  "waiting q i = (message_states q i = Some PENDING \<or> message_states q i = Some RETRYING)"

definition bucket :: "(string \<rightharpoonup> MessageState) \<Rightarrow> MessageState \<Rightarrow> string set" where
  "bucket ms s = {i. ms i = Some s}"

definition tracking_ok :: "'c PriorityMessageQueue \<Rightarrow> bool" where
  "tracking_ok q =
     (finite (dom (messages q)) \<and> dom (message_states q) = dom (messages q) \<and>
      (\<forall>i m. messages q i = Some m \<longrightarrow> msg_id m = i) \<and>
      (\<forall>i m. messages q i = Some m \<longrightarrow> message_states q i = Some PROCESSING
               \<longrightarrow> processing_started m \<noteq> None))"

definition queues_ok :: "'c PriorityMessageQueue \<Rightarrow> bool" where
  "queues_ok q =
     ((\<forall>p. sorted (queues q p) \<and> distinct (queues q p)) \<and>
      (\<forall>p e. e \<in> set (queues q p) \<longrightarrow>
         fst e = priority_value p \<and> waiting q (snd e) \<and>
         (\<exists>m. messages q (snd e) = Some m \<and> priority m = p)) \<and>
      (\<forall>i m. messages q i = Some m \<longrightarrow> waiting q i \<longrightarrow>
         (priority_value (priority m), i) \<in> set (queues q (priority m))))"

definition stats_ok :: "'c PriorityMessageQueue \<Rightarrow> bool" where
  "stats_ok q =
     ((\<forall>s. states (stats q) s = int (card (bucket (message_states q) s))) \<and>
      total_received (stats q) = int (card (dom (message_states q))) \<and>
      total_processed (stats q) = int (card (bucket (message_states q) COMPLETED)) \<and>
      total_failed (stats q) = int (card (bucket (message_states q) FAILED)))"

definition consistent :: "'c PriorityMessageQueue \<Rightarrow> bool" where
  "consistent q = (tracking_ok q \<and> queues_ok q \<and> stats_ok q)"


subsection \<open>Observing one message along a call sequence\<close>

text \<open>
  A snapshot of message \<open>i\<close> is its state and its retry count, both absent while the id
  is not tracked. \<open>transitions i q ops\<close> lists, for every call of \<open>ops\<close>, the call with the
  snapshots before and after it.
\<close>

type_synonym snapshot = "MessageState option \<times> int option"

definition snapshot :: "'c PriorityMessageQueue \<Rightarrow> string \<Rightarrow> snapshot" where
  "snapshot q i = (message_states q i, map_option retries (messages q i))"

fun transitions ::
  "string \<Rightarrow> 'c PriorityMessageQueue \<Rightarrow> 'c op list \<Rightarrow> ('c op \<times> snapshot \<times> snapshot) list" where
  "transitions i q [] = []"
| "transitions i q (x # xs) =
     (x, snapshot q i, snapshot (step x q) i) # transitions i (step x q) xs"

text \<open>
  The changes of a snapshot that the lifecycle allows, by the call that makes them:
  untracked to PENDING with count 0 (\<^verbatim>\<open>enqueue\<close> of that id), PENDING or RETRYING to
  PROCESSING (\<^verbatim>\<open>dequeue\<close>), PROCESSING to COMPLETED (\<^verbatim>\<open>mark_completed\<close>), PROCESSING
  to RETRYING with the count raised by one while it is below \<^verbatim>\<open>max_retries\<close>, and
  PROCESSING to FAILED once it is not (\<^verbatim>\<open>mark_failed\<close>).
\<close>

fun lifecycle_step :: "int \<Rightarrow> string \<Rightarrow> 'c op \<Rightarrow> snapshot \<Rightarrow> snapshot \<Rightarrow> bool" where
  "lifecycle_step maxr i (Enqueue j now c p) b a =
     (j = i \<and> b = (None, None) \<and> a = (Some PENDING, Some 0))"
| "lifecycle_step maxr i (Dequeue now) b a =
     ((fst b = Some PENDING \<or> fst b = Some RETRYING) \<and> fst a = Some PROCESSING \<and> snd a = snd b)"
| "lifecycle_step maxr i (MarkCompleted j now) b a =
     (j = i \<and> fst b = Some PROCESSING \<and> fst a = Some COMPLETED \<and> snd a = snd b)"
| "lifecycle_step maxr i (MarkFailed j err) b a =
     (j = i \<and> fst b = Some PROCESSING \<and>
      (case snd b of
         None \<Rightarrow> False
       | Some r \<Rightarrow> if r < maxr then a = (Some RETRYING, Some (r + 1))
                   else a = (Some FAILED, Some r)))"

text \<open>
  Counting for one message: the calls \<^verbatim>\<open>mark_failed(i, _)\<close> of a sequence, and how much
  those calls added to \<^verbatim>\<open>total_retried\<close> and to \<^verbatim>\<open>total_failed\<close>.
\<close>

fun is_failure_of :: "string \<Rightarrow> 'c op \<Rightarrow> bool" where
  "is_failure_of i (MarkFailed j err) = (j = i)"
| "is_failure_of i (Enqueue j now c p) = False"
| "is_failure_of i (Dequeue now) = False"
| "is_failure_of i (MarkCompleted j now) = False"

fun is_completion_of :: "string \<Rightarrow> 'c op \<Rightarrow> bool" where
  "is_completion_of i (MarkCompleted j now) = (j = i)"
| "is_completion_of i (Enqueue j now c p) = False"
| "is_completion_of i (Dequeue now) = False"
| "is_completion_of i (MarkFailed j err) = False"

definition failures_of :: "string \<Rightarrow> 'c op list \<Rightarrow> nat" where
  "failures_of i xs = length (filter (is_failure_of i) xs)"

fun retried_for :: "string \<Rightarrow> 'c PriorityMessageQueue \<Rightarrow> 'c op list \<Rightarrow> int" where
  "retried_for i q [] = 0"
| "retried_for i q (x # xs) =
     (if is_failure_of i x
      then total_retried (stats (step x q)) - total_retried (stats q) else 0)
     + retried_for i (step x q) xs"

fun failed_for :: "string \<Rightarrow> 'c PriorityMessageQueue \<Rightarrow> 'c op list \<Rightarrow> int" where
  "failed_for i q [] = 0"
| "failed_for i q (x # xs) =
     (if is_failure_of i x
      then total_failed (stats (step x q)) - total_failed (stats q) else 0)
     + failed_for i (step x q) xs"




text \<open>
  What the workers are handed: the ids that the \<^verbatim>\<open>dequeue\<close> calls of a sequence return,
  in order, with \<open>None\<close> for a call that finds every class queue empty.
\<close>

fun dequeued :: "'c PriorityMessageQueue \<Rightarrow> 'c op list \<Rightarrow> string option list" where
  "dequeued q [] = []"
| "dequeued q (Dequeue now # xs) =
     map_option msg_id (fst (dequeue now q)) # dequeued (step (Dequeue now) q) xs"
| "dequeued q (x # xs) = dequeued (step x q) xs"


section \<open>Concrete queues used as examples\<close>

text \<open>The constructor's defaults: \<^verbatim>\<open>max_size=10000, max_retries=3, processing_timeout=30, batch_size=10\<close>.\<close>

definition default_queue :: "string PriorityMessageQueue" where
  "default_queue = PriorityMessageQueue_init 10000 3 30 10"

definition one_pending :: "string PriorityMessageQueue" where
  "one_pending = run default_queue [Enqueue ''7213908855012345678'' 100 ''speed=50'' HIGH]"

definition completed_once :: "string PriorityMessageQueue" where
  "completed_once = run default_queue
     [Enqueue ''7213908855012345678'' 100 ''speed=50'' HIGH, Dequeue 200,
      MarkCompleted ''7213908855012345678'' 300]"

definition completed_twice :: "string PriorityMessageQueue" where
  "completed_twice = run default_queue
     [Enqueue ''7213908855012345678'' 100 ''speed=50'' HIGH, Dequeue 200,
      MarkCompleted ''7213908855012345678'' 300, MarkCompleted ''7213908855012345678'' 400]"

definition two_critical :: "string PriorityMessageQueue" where
  "two_critical = run default_queue
     [Enqueue ''7213908855012345678'' 100 ''first'' CRITICAL,
      Enqueue ''1893245500766123456'' 200 ''second'' CRITICAL]"

definition low_then_critical :: "string PriorityMessageQueue" where
  "low_then_critical = run default_queue
     [Enqueue ''1893245500766123456'' 100 ''routine'' LOW,
      Enqueue ''7213908855012345678'' 200 ''urgent'' CRITICAL]"

definition retrying_once :: "string PriorityMessageQueue" where
  "retrying_once = run default_queue
     [Enqueue ''7213908855012345678'' 100 ''speed=50'' HIGH, Dequeue 200,
      MarkFailed ''7213908855012345678'' ''oracle failed'']"

definition always_failing :: "string op list" where
  "always_failing =
     [Enqueue ''7213908855012345678'' 100 ''speed=50'' HIGH,
      Dequeue 200, MarkFailed ''7213908855012345678'' ''oracle failed'',
      Dequeue 300, MarkFailed ''7213908855012345678'' ''oracle failed'',
      Dequeue 400, MarkFailed ''7213908855012345678'' ''oracle failed'',
      Dequeue 500, MarkFailed ''7213908855012345678'' ''oracle failed'']"

definition reported_twice :: "string op list" where
  "reported_twice = always_failing @ [MarkFailed ''7213908855012345678'' ''oracle failed'']"

section \<open>The message validator (message\_handler.py)\<close>

text \<open>
  The embedding follows \<^verbatim>\<open>MessageValidator\<close> in \<^verbatim>\<open>src/src/message_handler.py\<close>. A
  \<^verbatim>\<open>datetime\<close> is an integer number of microseconds, its resolution, and the difference
  of two is a \<^verbatim>\<open>timedelta\<close> of that many microseconds; \<^verbatim>\<open>max_message_age\<close> is in
  milliseconds as in the source. A message is a dict with string keys. Numbers in a
  message are integers; a string where a number is compared raises \<^verbatim>\<open>TypeError\<close>.
  The reason strings are kept as structured values: the list returned by
  \<open>validate_message\<close> stands for the reasons joined with \<^verbatim>\<open>" | "\<close>.
\<close>

datatype MessageType =
    POSITION_UPDATE | EMERGENCY_ALERT | TRAFFIC_INFO
  | INFRASTRUCTURE_STATUS | SAFETY_WARNING | CONTROL_COMMAND

record MessageMetadata =
  message_id :: string
  sender_id :: string
  md_timestamp :: int
  message_type :: MessageType
  md_priority :: int
  hop_count :: int
  signature :: "string option"
  previous_hop :: "string option"

datatype pyval = PInt int | PStr string

type_synonym message = "string \<rightharpoonup> pyval"

datatype reason =
    MessageValid
  | MessageTooOld int
  | FutureTimestamp
  | UnknownMessageType
  | MissingRequiredFields "string set"
  | DuplicateMessage string
  | InvalidSpeed pyval
  | InvalidDirection pyval

type_synonym check_result = "bool \<times> reason list"

record MessageValidator =
  max_message_age :: int
  message_cache :: "string \<rightharpoonup> int"

definition MessageValidator_init :: "int \<Rightarrow> MessageValidator" where
  "MessageValidator_init age = \<lparr>max_message_age = age, message_cache = Map.empty\<rparr>"

subsection \<open>Seconds as double-precision numbers\<close>

text \<open>
  \<^verbatim>\<open>timedelta.total_seconds()\<close> divides the microseconds by \<^verbatim>\<open>10**6\<close> and returns the
  nearest double; a product of two doubles is again rounded to the nearest double.
  \<open>to_double\<close> is that rounding (IEEE 754 binary64, to nearest, ties to the even
  significand) on the reals: a number of magnitude from \<open>2^k\<close> up to \<open>2^(k+1)\<close> is
  rounded to a multiple of \<open>2^(k-52)\<close>. Overflow and subnormal numbers do not occur for
  time differences between two \<^verbatim>\<open>datetime\<close> values and are left out. Comparing a double
  with an integer is exact in Python.
\<close>

definition round_half_even :: "real \<Rightarrow> int" where
  "round_half_even x =
     (let f = \<lfloor>x\<rfloor>; d = x - of_int f
      in if d < 1/2 then f else if 1/2 < d then f + 1 else if even f then f else f + 1)"

definition to_double :: "real \<Rightarrow> real" where
  "to_double x =
     (if x = 0 then 0
      else (let e = \<lfloor>log 2 \<bar>x\<bar>\<rfloor> - 52
            in of_int (round_half_even (x / 2 powi e)) * 2 powi e))"

definition total_seconds :: "int \<Rightarrow> real" where
  "total_seconds us = to_double (of_int us / 1000000)"

subsection \<open>The checks\<close>

text \<open>
  \<^verbatim>\<open>_validate_timing\<close>: the age in milliseconds is the double
  \<^verbatim>\<open>(current_time - metadata.timestamp).total_seconds() * 1000\<close>, compared with the
  integer \<^verbatim>\<open>max_message_age\<close>. The reason carries the age in microseconds, whose
  rendering in milliseconds the source prints.
\<close>

definition validate_timing :: "int \<Rightarrow> MessageValidator \<Rightarrow> MessageMetadata \<Rightarrow> check_result" where
  "validate_timing now v metadata =
     (let message_age = to_double (total_seconds (now - md_timestamp metadata) * 1000)
      in if message_age > of_int (max_message_age v)
         then (False, [MessageTooOld (now - md_timestamp metadata)])
         else if md_timestamp metadata > now then (False, [FutureTimestamp])
         else (True, []))"

fun required_fields :: "MessageType \<Rightarrow> string set" where
  "required_fields POSITION_UPDATE = {''position'', ''speed'', ''direction''}"
| "required_fields EMERGENCY_ALERT = {''alert_type'', ''severity'', ''location''}"
| "required_fields TRAFFIC_INFO = {''road_id'', ''congestion_level'', ''average_speed''}"
| "required_fields INFRASTRUCTURE_STATUS = {''device_id'', ''status'', ''health''}"
| "required_fields SAFETY_WARNING = {''warning_type'', ''affected_area'', ''duration''}"
| "required_fields CONTROL_COMMAND = {''command_type'', ''parameters'', ''target_id''}"

text \<open>
  \<^verbatim>\<open>_validate_structure\<close>. Every member of the enum is a key of the table, so the
  unknown-type branch is never taken.
\<close>

definition validate_structure :: "message \<Rightarrow> MessageType \<Rightarrow> check_result" where
  "validate_structure message mtype =
     (let missing_fields = required_fields mtype - dom message
      in if missing_fields \<noteq> {} then (False, [MissingRequiredFields missing_fields])
         else (True, []))"

text \<open>
  \<^verbatim>\<open>_validate_duplicates\<close>: \<^verbatim>\<open>time_diff\<close> is the double
  \<^verbatim>\<open>(metadata.timestamp - cached_time).total_seconds()\<close>, compared with \<^verbatim>\<open>1.0\<close>.
\<close>

definition validate_duplicates :: "MessageValidator \<Rightarrow> MessageMetadata \<Rightarrow> check_result" where
  "validate_duplicates v metadata =
     (case message_cache v (message_id metadata) of
        Some cached_time \<Rightarrow>
          (let time_diff = total_seconds (md_timestamp metadata - cached_time)
           in if time_diff < 1 then (False, [DuplicateMessage (message_id metadata)])
              else (True, []))
      | None \<Rightarrow> (True, []))"

definition validate_sequence :: "message \<Rightarrow> MessageMetadata \<Rightarrow> check_result" where
  "validate_sequence message metadata = (True, [])"

text \<open>
  \<^verbatim>\<open>_validate_position_constraints\<close>, the one constraint check defined in the class:
  \<^verbatim>\<open>message.get('speed', 0)\<close> and \<^verbatim>\<open>message.get('direction', 0)\<close> against their ranges.
\<close>

definition in_range :: "int \<Rightarrow> int \<Rightarrow> pyval \<Rightarrow> exn + bool" where
  "in_range lo hi x = (case x of PInt n \<Rightarrow> Inr (lo \<le> n \<and> n \<le> hi) | PStr s \<Rightarrow> Inl TypeError)"

definition dict_get :: "message \<Rightarrow> string \<Rightarrow> pyval \<Rightarrow> pyval" where
  "dict_get message k d = (case message k of Some x \<Rightarrow> x | None \<Rightarrow> d)"

definition validate_position_constraints :: "message \<Rightarrow> exn + check_result" where
  "validate_position_constraints message =
     (let speed = dict_get message ''speed'' (PInt 0)
      in case in_range 0 200 speed of
           Inl e \<Rightarrow> Inl e
         | Inr ok \<Rightarrow>
             if \<not> ok then Inr (False, [InvalidSpeed speed])
             else
               (let direction = dict_get message ''direction'' (PInt 0)
                in case in_range 0 360 direction of
                     Inl e \<Rightarrow> Inl e
                   | Inr ok' \<Rightarrow>
                       if \<not> ok' then Inr (False, [InvalidDirection direction])
                       else Inr (True, [])))"

text \<open>
  Attribute lookup on a \<^verbatim>\<open>MessageValidator\<close> instance. The class body ends with
  \<^verbatim>\<open>_validate_position_constraints\<close> (line 137 of the file). The definitions of
  \<^verbatim>\<open>_validate_emergency_constraints\<close>, \<^verbatim>\<open>_validate_traffic_constraints\<close>,
  \<^verbatim>\<open>_validate_infrastructure_constraints\<close>, \<^verbatim>\<open>_validate_safety_constraints\<close> and
  \<^verbatim>\<open>_validate_control_constraints\<close> (lines 139 to 256) start in column 0: they are
  functions of the module, not attributes of the class, so \<^verbatim>\<open>self._validate_emergency_constraints\<close>
  and the four others raise \<^verbatim>\<open>AttributeError\<close>.
\<close>

definition MessageValidator_getattr :: "string \<Rightarrow> (message \<Rightarrow> exn + check_result) option" where
  "MessageValidator_getattr name =
     (if name = ''_validate_position_constraints'' then Some validate_position_constraints
      else None)"

text \<open>
  \<^verbatim>\<open>_validate_constraints\<close> first builds the dict \<^verbatim>\<open>constraints\<close>, whose six values are
  attribute lookups on \<^verbatim>\<open>self\<close>, evaluated in order; then it dispatches on the message
  type.
\<close>

definition validate_constraints :: "message \<Rightarrow> MessageMetadata \<Rightarrow> exn + check_result" where
  "validate_constraints message metadata =
     (case MessageValidator_getattr ''_validate_position_constraints'' of
        None \<Rightarrow> Inl AttributeError
      | Some h1 \<Rightarrow>
     (case MessageValidator_getattr ''_validate_emergency_constraints'' of
        None \<Rightarrow> Inl AttributeError
      | Some h2 \<Rightarrow>
     (case MessageValidator_getattr ''_validate_traffic_constraints'' of
        None \<Rightarrow> Inl AttributeError
      | Some h3 \<Rightarrow>
     (case MessageValidator_getattr ''_validate_infrastructure_constraints'' of
        None \<Rightarrow> Inl AttributeError
      | Some h4 \<Rightarrow>
     (case MessageValidator_getattr ''_validate_safety_constraints'' of
        None \<Rightarrow> Inl AttributeError
      | Some h5 \<Rightarrow>
     (case MessageValidator_getattr ''_validate_control_constraints'' of
        None \<Rightarrow> Inl AttributeError
      | Some h6 \<Rightarrow>
          (let constraints =
                 [(POSITION_UPDATE, h1), (EMERGENCY_ALERT, h2), (TRAFFIC_INFO, h3),
                  (INFRASTRUCTURE_STATUS, h4), (SAFETY_WARNING, h5), (CONTROL_COMMAND, h6)]
           in case map_of constraints (message_type metadata) of
                Some h \<Rightarrow> h message
              | None \<Rightarrow> Inr (True, []))))))))"

text \<open>
  \<^verbatim>\<open>validate_message\<close>: the list of the five results is built first, each check called
  in turn; an exception in one of them leaves the call before anything is returned or
  cached.
\<close>

definition validate_message ::
  "int \<Rightarrow> MessageValidator \<Rightarrow> message \<Rightarrow> MessageMetadata
     \<Rightarrow> (exn + check_result) \<times> MessageValidator" where
  "validate_message now v message metadata =
     (let r1 = validate_timing now v metadata;
          r2 = validate_structure message (message_type metadata);
          r3 = validate_duplicates v metadata;
          r4 = validate_sequence message metadata
      in case validate_constraints message metadata of
           Inl e \<Rightarrow> (Inl e, v)
         | Inr r5 \<Rightarrow>
             (let validations = [r1, r2, r3, r4, r5];
                  failed_validations = concat (map snd (filter (\<lambda>result. \<not> fst result) validations))
              in if failed_validations \<noteq> [] then (Inr (False, failed_validations), v)
                 else (Inr (True, [MessageValid]),
                       v\<lparr>message_cache := (message_cache v)(message_id metadata \<mapsto> md_timestamp metadata)\<rparr>)))"

definition stale_incomplete_message :: message where
  "stale_incomplete_message = [''speed'' \<mapsto> PInt 50]"

definition stale_metadata :: MessageMetadata where
  "stale_metadata =
     \<lparr>message_id = ''msg-1'', sender_id = ''vehicle-7'', md_timestamp = 0,
      message_type = POSITION_UPDATE, md_priority = 3, hop_count = 0,
      signature = None, previous_hop = None\<rparr>"


definition good_metadata :: "int \<Rightarrow> MessageMetadata" where
  "good_metadata ts =
     \<lparr>message_id = ''msg-1'', sender_id = ''vehicle-7'', md_timestamp = ts,
      message_type = POSITION_UPDATE, md_priority = 3, hop_count = 0,
      signature = None, previous_hop = None\<rparr>"

definition cached_validator :: MessageValidator where
  "cached_validator = \<lparr>max_message_age = 5000, message_cache = [''msg-1'' \<mapsto> 60000000]\<rparr>"

section \<open>The gateway's escalation and result combination (api\_gateway.py)\<close>

text \<open>
  The embedding follows \<^verbatim>\<open>ApiGateway._process_single_message\<close>, \<^verbatim>\<open>_prepare_sequence\<close>,
  \<^verbatim>\<open>_combine_results\<close>, \<^verbatim>\<open>_create_response\<close> and \<^verbatim>\<open>_generate_recommendations\<close>. The
  detector, the analyzer and the transformer are the constructor's arguments: they are
  parameters here, functions from their argument to their result (the gateway calls
  \<^verbatim>\<open>detector.process_message\<close> with the message alone). Scores are finite
  floats; only comparisons and \<^verbatim>\<open>max\<close> are applied to them, which are exact, so they are
  embedded in the reals. The payloads whose structure the gateway never inspects
  (a detector's evidence, an analyzer's context analysis, the transformer's output) are
  type parameters. One clock reading \<open>now\<close> stands for the calls of \<^verbatim>\<open>datetime.now()\<close>
  made while one message is processed.
\<close>

record 'e DetectionResult =
  dr_timestamp :: int
  threat_detected :: bool
  confidence :: real
  threat_type :: "string option"
  affected_nodes :: "string list"
  evidence :: 'e
  recommendation :: string

record 'a AnalysisResult =
  ar_timestamp :: int
  anomaly_score :: real
  anomaly_type :: "string option"
  ar_confidence :: real
  feature_importance :: "string \<rightharpoonup> real"
  temporal_pattern :: "string \<rightharpoonup> real list"
  spatial_correlation :: "string \<rightharpoonup> real"
  context_analysis :: 'a

record 'b V2IMessage =
  v2i_message_id :: string
  v2i_sender_id :: string
  v2i_message_type :: string
  v2i_timestamp :: int
  v2i_priority :: string
  v2i_content :: 'b
  v2i_signature :: "string option"

record GatewayConfig =
  analysis_threshold :: real
  transform_threshold :: real
  threat_threshold :: real
  max_sequence_length :: int
  recommendation_templates :: "string \<rightharpoonup> string list"

text \<open>A session of \<^verbatim>\<open>active_sessions\<close>: its messages are dicts, of which only the key
  \<^verbatim>\<open>'timestamp'\<close> is read.\<close>

record Session =
  session_messages :: "(string \<rightharpoonup> int) list"
  last_update :: int

record Sequence =
  seq_messages :: "(string \<rightharpoonup> int) list"
  seq_sender_id :: string
  session_start :: int

datatype ('e, 'a, 't) stage_output = DetectionEvidence 'e | ContextAnalysis 'a | TransformOutput 't

text \<open>The dict returned by \<^verbatim>\<open>_combine_results\<close>; its \<^verbatim>\<open>'evidence'\<close> entry is a dict again.\<close>

record ('e, 'a, 't) CombinedResult =
  cr_threat_detected :: bool
  cr_confidence :: real
  cr_threat_type :: "string option"
  cr_evidence :: "string \<rightharpoonup> ('e, 'a, 't) stage_output"

record DetectionResponse =
  resp_status :: string
  resp_threat_detected :: bool
  resp_confidence :: real
  resp_threat_type :: "string option"
  resp_recommendations :: "string list"
  resp_timestamp :: int

text \<open>
  Python's \<^verbatim>\<open>a or b\<close> on optional strings yields \<^verbatim>\<open>a\<close> when it is truthy (neither
  \<^verbatim>\<open>None\<close> nor empty) and \<^verbatim>\<open>b\<close> otherwise; \<^verbatim>\<open>max(a, b)\<close> keeps \<^verbatim>\<open>a\<close> unless \<^verbatim>\<open>b > a\<close>.
\<close>

definition py_or :: "string option \<Rightarrow> string option \<Rightarrow> string option" where
  "py_or a b = (case a of None \<Rightarrow> b | Some s \<Rightarrow> if s = [] then b else Some s)"

definition py_max :: "real \<Rightarrow> real \<Rightarrow> real" where
  "py_max a b = (if b > a then b else a)"

definition combine_results ::
  "GatewayConfig \<Rightarrow> 'e DetectionResult \<Rightarrow> 'a AnalysisResult \<Rightarrow> 't
     \<Rightarrow> ('e, 'a, 't) CombinedResult" where
  "combine_results config detection analysis transform =
     \<lparr>cr_threat_detected =
        (threat_detected detection \<or> anomaly_score analysis > threat_threshold config),
      cr_confidence = py_max (confidence detection) (anomaly_score analysis),
      cr_threat_type = py_or (threat_type detection) (anomaly_type analysis),
      cr_evidence =
        [''detection'' \<mapsto> DetectionEvidence (evidence detection),
         ''analysis'' \<mapsto> ContextAnalysis (context_analysis analysis),
         ''transform'' \<mapsto> TransformOutput transform]\<rparr>"

definition generate_recommendations ::
  "GatewayConfig \<Rightarrow> ('e, 'a, 't) CombinedResult \<Rightarrow> string list" where
  "generate_recommendations config result =
     (if cr_threat_detected result then
        (let urgent = (if cr_confidence result > 0.9
                       then [''URGENT: Immediate action required''] else [])
         in case cr_threat_type result of
              None \<Rightarrow> urgent
            | Some t \<Rightarrow>
                (case recommendation_templates config t of
                   None \<Rightarrow> urgent
                 | Some rs \<Rightarrow> urgent @ rs))
      else [])"

text \<open>
  \<^verbatim>\<open>_create_response\<close> subscripts its argument (\<^verbatim>\<open>result['threat_detected']\<close>). It is
  called with the dict of \<^verbatim>\<open>_combine_results\<close>, and with the detector's
  \<^verbatim>\<open>DetectionResult\<close> when a stage was skipped; a dataclass instance is not
  subscriptable, which raises \<^verbatim>\<open>TypeError\<close>.
\<close>

datatype ('e, 'a, 't) response_source =
    FromDict "('e, 'a, 't) CombinedResult"
  | FromDetectionResult "'e DetectionResult"

definition create_response ::
  "int \<Rightarrow> GatewayConfig \<Rightarrow> ('e, 'a, 't) response_source \<Rightarrow> exn + DetectionResponse" where
  "create_response now config src =
     (case src of
        FromDetectionResult d \<Rightarrow> Inl TypeError
      | FromDict result \<Rightarrow>
          Inr \<lparr>resp_status = ''success'',
               resp_threat_detected = cr_threat_detected result,
               resp_confidence = cr_confidence result,
               resp_threat_type = cr_threat_type result,
               resp_recommendations = generate_recommendations config result,
               resp_timestamp = now\<rparr>)"

text \<open>
  \<^verbatim>\<open>_prepare_sequence\<close>: creates the sender's session when there is none; when the
  session holds more than \<^verbatim>\<open>max_sequence_length\<close> messages it drops the oldest with
  \<^verbatim>\<open>pop(0)\<close>, which raises \<^verbatim>\<open>IndexError\<close> on an empty list (a negative
  \<^verbatim>\<open>max_sequence_length\<close> and a session without messages); then it returns the
  sequence, and reading \<^verbatim>\<open>['timestamp']\<close> of the first message raises \<^verbatim>\<open>KeyError\<close>
  when that dict has no such key. The sessions are mutated in place, so what was
  written before an exception stays.
\<close>

definition prepare_sequence ::
  "int \<Rightarrow> GatewayConfig \<Rightarrow> string \<Rightarrow> (string \<rightharpoonup> Session)
     \<Rightarrow> (exn + Sequence) \<times> (string \<rightharpoonup> Session)" where
  "prepare_sequence now config sender active_sessions =
     (let sessions1 = (case active_sessions sender of
                         None \<Rightarrow> active_sessions(sender \<mapsto> \<lparr>session_messages = [], last_update = now\<rparr>)
                       | Some s \<Rightarrow> active_sessions);
          session = (case sessions1 sender of
                       Some s \<Rightarrow> s
                     | None \<Rightarrow> \<lparr>session_messages = [], last_update = now\<rparr>)
      in if int (length (session_messages session)) > max_sequence_length config
            \<and> session_messages session = []
         then (Inl IndexError, sessions1)
         else
           (let session' = (if int (length (session_messages session)) > max_sequence_length config
                            then session\<lparr>session_messages := tl (session_messages session)\<rparr>
                            else session);
                sessions2 = sessions1(sender \<mapsto> session')
            in case session_messages session' of
                 [] \<Rightarrow> (Inr \<lparr>seq_messages = [], seq_sender_id = sender, session_start = now\<rparr>,
                        sessions2)
               | m # ms \<Rightarrow>
                   (case m ''timestamp'' of
                      None \<Rightarrow> (Inl KeyError, sessions2)
                    | Some ts \<Rightarrow>
                        (Inr \<lparr>seq_messages = m # ms, seq_sender_id = sender, session_start = ts\<rparr>,
                         sessions2))))"

definition process_single_message ::
  "('b V2IMessage \<Rightarrow> 'e DetectionResult)
     \<Rightarrow> ('e DetectionResult \<Rightarrow> 'b V2IMessage \<Rightarrow> 'a AnalysisResult)
     \<Rightarrow> (Sequence \<Rightarrow> 't)
     \<Rightarrow> int \<Rightarrow> GatewayConfig \<Rightarrow> (string \<rightharpoonup> Session) \<Rightarrow> 'b V2IMessage
     \<Rightarrow> (exn + DetectionResponse) \<times> (string \<rightharpoonup> Session)" where
  "process_single_message detector analyzer transformer now config active_sessions message =
     (let detection_result = detector message
      in if confidence detection_result > analysis_threshold config then
           (let analysis_result = analyzer detection_result message
            in if anomaly_score analysis_result > transform_threshold config then
                 (case prepare_sequence now config (v2i_sender_id message) active_sessions of
                    (Inl e, sessions) \<Rightarrow> (Inl e, sessions)
                  | (Inr sequence, sessions) \<Rightarrow>
                      (let transform_result = transformer sequence;
                           final_result = combine_results config detection_result
                                            analysis_result transform_result
                       in (create_response now config (FromDict final_result), sessions)))
               else (create_response now config
                       (FromDetectionResult detection_result :: ('e, 'a, 't) response_source),
                     active_sessions))
         else (create_response now config
                 (FromDetectionResult detection_result :: ('e, 'a, 't) response_source),
               active_sessions))"


definition escalating_analysis :: "string AnalysisResult" where
  "escalating_analysis =
     \<lparr>ar_timestamp = 101, anomaly_score = 0.9, anomaly_type = Some ''behavioral'',
      ar_confidence = 0.7, feature_importance = Map.empty, temporal_pattern = Map.empty,
      spatial_correlation = Map.empty, context_analysis = ''context analysis''\<rparr>"

definition example_config :: GatewayConfig where
  "example_config =
     \<lparr>analysis_threshold = 0.75, transform_threshold = 0.85, threat_threshold = 0.8,
      max_sequence_length = 50, recommendation_templates = Map.empty\<rparr>"

definition example_message :: "string V2IMessage" where
  "example_message =
     \<lparr>v2i_message_id = ''msg-1'', v2i_sender_id = ''vehicle-7'',
      v2i_message_type = ''position_update'', v2i_timestamp = 99, v2i_priority = ''high'',
      v2i_content = ''speed=50'', v2i_signature = None\<rparr>"

definition quiet_detection :: "string DetectionResult" where
  "quiet_detection =
     \<lparr>dr_timestamp = 100, threat_detected = False, confidence = 0.2,
      threat_type = None, affected_nodes = [''vehicle-7''],
      evidence = ''detector evidence'', recommendation = ''''\<rparr>"

definition unnamed_detection :: "string DetectionResult" where
  "unnamed_detection =
     \<lparr>dr_timestamp = 100, threat_detected = True, confidence = 0.8,
      threat_type = Some [], affected_nodes = [''vehicle-7''],
      evidence = ''detector evidence'', recommendation = []\<rparr>"

section \<open>The analyzer's score (analyzer.py)\<close>

text \<open>
  \<^verbatim>\<open>DataAnalyzer._calculate_anomaly_score\<close>. The four factors come from
  \<^verbatim>\<open>_calculate_feature_based_score\<close> (an isolation forest), \<^verbatim>\<open>_calculate_temporal_factor\<close>,
  \<^verbatim>\<open>_calculate_spatial_factor\<close> and \<^verbatim>\<open>_calculate_context_factor\<close>, which call numpy,
  scikit-learn and helper methods that the repository does not define; they are
  parameters. Python floats are idealised as real numbers here: rounding and NaN are
  outside this model. \<^verbatim>\<open>np.clip(x, lo, hi)\<close> is \<^verbatim>\<open>minimum(hi, maximum(x, lo))\<close>.
\<close>

definition np_clip :: "real \<Rightarrow> real \<Rightarrow> real \<Rightarrow> real" where
  "np_clip x lo hi = min hi (max x lo)"

definition calculate_anomaly_score ::
  "('f \<Rightarrow> real) \<Rightarrow> ('p \<Rightarrow> real) \<Rightarrow> ('s \<Rightarrow> real) \<Rightarrow> ('c \<Rightarrow> real)
     \<Rightarrow> 'f \<Rightarrow> 'p \<Rightarrow> 's \<Rightarrow> 'c \<Rightarrow> real" where
  "calculate_anomaly_score calculate_feature_based_score calculate_temporal_factor
       calculate_spatial_factor calculate_context_factor
       features temporal_patterns spatial_correlations context =
     (let base_score = calculate_feature_based_score features;
          temporal_factor = calculate_temporal_factor temporal_patterns;
          spatial_factor = calculate_spatial_factor spatial_correlations;
          context_factor = calculate_context_factor context;
          final_score = 0.4 * base_score + 0.3 * temporal_factor + 0.2 * spatial_factor
                        + 0.1 * context_factor
      in np_clip final_score 0 1)"

text \<open>The spec's words: a weighted sum, clipped to the interval from 0 to 1.\<close>

definition weighted_sum_spec :: "real \<Rightarrow> real \<Rightarrow> real \<Rightarrow> real \<Rightarrow> real" where
  "weighted_sum_spec b t s c = (4 * b + 3 * t + 2 * s + c) / 10"

definition clipped_to_unit_spec :: "real \<Rightarrow> real" where
  "clipped_to_unit_spec x = (if x < 0 then 0 else if 1 < x then 1 else x)"

section \<open>Invariant preservation for the queue\<close>

subsection \<open>Counting the messages of a state\<close>

lemma finite_bucket: "finite (dom ms) \<Longrightarrow> finite (bucket ms s)"
  by (rule finite_subset[of _ "dom ms"]) (auto simp: bucket_def)

lemma bucket_fresh:
  assumes "ms i = None" "finite (dom ms)"
  shows "int (card (bucket (ms(i \<mapsto> s)) s')) = int (card (bucket ms s')) + (if s' = s then 1 else 0)"
proof -
  have ni: "i \<notin> bucket ms s'" using assms by (simp add: bucket_def)
  have fin: "finite (bucket ms s')" using assms finite_bucket by blast
  show ?thesis
  proof (cases "s' = s")
    case True
    have "bucket (ms(i \<mapsto> s)) s' = insert i (bucket ms s')"
      using True by (auto simp: bucket_def)
    then show ?thesis using ni fin True by simp
  next
    case False
    have "bucket (ms(i \<mapsto> s)) s' = bucket ms s'"
      using False assms by (auto simp: bucket_def)
    then show ?thesis using False by simp
  qed
qed

lemma bucket_change:
  assumes "ms i = Some old" "finite (dom ms)"
  shows "int (card (bucket (ms(i \<mapsto> new)) s')) =
         int (card (bucket ms s')) - (if s' = old then 1 else 0) + (if s' = new then 1 else 0)"
proof -
  have fin: "finite (bucket ms s')" using assms finite_bucket by blast
  have mem: "i \<in> bucket ms s' \<longleftrightarrow> s' = old" using assms by (auto simp: bucket_def)
  have eq: "bucket (ms(i \<mapsto> new)) s' =
            (if s' = new then insert i (bucket ms s' - {i}) else bucket ms s' - {i})"
    by (auto simp: bucket_def)
  have c1: "card (bucket ms s' - {i}) = card (bucket ms s') - (if s' = old then 1 else 0)"
    using mem fin by (simp add: card_Diff_singleton_if)
  have pos: "s' = old \<Longrightarrow> card (bucket ms s') \<ge> 1"
    using mem fin by (metis One_nat_def Suc_leI card_gt_0_iff empty_iff)
  show ?thesis
  proof (cases "s' = new")
    case True
    then have "card (bucket (ms(i \<mapsto> new)) s') = Suc (card (bucket ms s' - {i}))"
      using eq fin by (simp add: card.insert_remove)
    then show ?thesis using c1 pos True by (auto simp: of_nat_diff)
  next
    case False
    then show ?thesis using eq c1 pos by (auto simp: of_nat_diff)
  qed
qed

lemma dom_fresh_card:
  assumes "ms i = None" "finite (dom ms)"
  shows "int (card (dom (ms(i \<mapsto> s)))) = int (card (dom ms)) + 1"
  using assms by (simp add: domIff)



lemma ums_fields:
  "message_states (update_message_state i s q) = (message_states q)(i \<mapsto> s)"
  "messages (update_message_state i s q) = messages q"
  "queues (update_message_state i s q) = queues q"
  "max_size (update_message_state i s q) = max_size q"
  "max_retries (update_message_state i s q) = max_retries q"
  "total_received (stats (update_message_state i s q)) = total_received (stats q)"
  "total_processed (stats (update_message_state i s q)) = total_processed (stats q)"
  "total_failed (stats (update_message_state i s q)) = total_failed (stats q)"
  "total_retried (stats (update_message_state i s q)) = total_retried (stats q)"
  "processing_times (stats (update_message_state i s q)) = processing_times (stats q)"
  "priority_counts (stats (update_message_state i s q)) = priority_counts (stats q)"
  by (simp_all add: update_message_state_def Let_def split: option.splits)

lemma ums_states:
  "states (stats (update_message_state i s q)) s' =
     (case message_states q i of
        Some old \<Rightarrow> states (stats q) s' - (if s' = old then 1 else 0) + (if s' = s then 1 else 0)
      | None \<Rightarrow> states (stats q) s' + (if s' = s then 1 else 0))"
  by (simp add: update_message_state_def Let_def split: option.splits)

lemma ums_buckets:
  assumes "\<forall>s. states (stats q) s = int (card (bucket (message_states q) s))"
    and "finite (dom (message_states q))" and "message_states q i = Some old"
  shows "states (stats (update_message_state i new q)) s' =
         int (card (bucket (message_states (update_message_state i new q)) s'))"
  using assms bucket_change[of "message_states q" i old new s']
  by (simp add: ums_states ums_fields)

lemma waiting_simps:
  "waiting (q\<lparr>queues := x\<rparr>) i = waiting q i"
  "waiting (q\<lparr>messages := y\<rparr>) i = waiting q i"
  "waiting (q\<lparr>stats := z\<rparr>) i = waiting q i"
  by (simp_all add: waiting_def)

lemma waiting_ums:
  "waiting (update_message_state i s q) j =
     (if j = i then s = PENDING \<or> s = RETRYING else waiting q j)"
  by (simp add: waiting_def ums_fields)

lemma init_consistent: "consistent (PriorityMessageQueue_init a b c d)"
  by (simp add: consistent_def tracking_ok_def queues_ok_def stats_ok_def
      PriorityMessageQueue_init_def QueueStats_init_def bucket_def)

subsection \<open>enqueue\<close>

lemma enqueue_fields:
  assumes "\<not> pq_full (max_size q) (queues q prio)"
  shows "fst (enqueue i now c prio q) = Returned i"
    "messages (snd (enqueue i now c prio q)) = (messages q)(i \<mapsto>
        \<lparr>msg_id = i, content = c, priority = prio, timestamp = now,
             retries = 0, processing_started = None, processing_completed = None,
             error = None\<rparr>)"
    "message_states (snd (enqueue i now c prio q)) = (message_states q)(i \<mapsto> PENDING)"
    "queues (snd (enqueue i now c prio q)) = (queues q)(prio := insort (priority_value prio, i) (queues q prio))"
    "max_size (snd (enqueue i now c prio q)) = max_size q"
    "max_retries (snd (enqueue i now c prio q)) = max_retries q"
    "total_received (stats (snd (enqueue i now c prio q))) = total_received (stats q) + 1"
    "total_processed (stats (snd (enqueue i now c prio q))) = total_processed (stats q)"
    "total_failed (stats (snd (enqueue i now c prio q))) = total_failed (stats q)"
    "total_retried (stats (snd (enqueue i now c prio q))) = total_retried (stats q)"
    "states (stats (snd (enqueue i now c prio q))) = (states (stats q))(PENDING := states (stats q) PENDING + 1)"
  using assms by (simp_all add: enqueue_def Let_def pq_put_def)




lemma enqueue_tracking:
  assumes "tracking_ok q" "messages q i = None" "\<not> pq_full (max_size q) (queues q prio)"
  shows "tracking_ok (snd (enqueue i now c prio q))"
  using assms unfolding tracking_ok_def
  by (auto simp: enqueue_fields split: if_splits)


lemma enqueue_stats:
  assumes "stats_ok q" "tracking_ok q" "message_states q i = None" "\<not> pq_full (max_size q) (queues q prio)"
  shows "stats_ok (snd (enqueue i now c prio q))"
proof -
  have fin: "finite (dom (message_states q))" using assms(2) by (simp add: tracking_ok_def)
  note b = bucket_fresh[OF assms(3) fin, of PENDING]
  show ?thesis
    using assms(1) b dom_fresh_card[OF assms(3) fin, of PENDING]
    unfolding stats_ok_def
    by (simp add: enqueue_fields[OF assms(4)])
qed


lemma queues_okD:
  assumes "queues_ok q"
  shows "sorted (queues q p)" "distinct (queues q p)"
    "e \<in> set (queues q p) \<Longrightarrow> fst e = priority_value p"
    "e \<in> set (queues q p) \<Longrightarrow> waiting q (snd e)"
    "e \<in> set (queues q p) \<Longrightarrow> \<exists>m. messages q (snd e) = Some m \<and> priority m = p"
    "messages q i = Some m \<Longrightarrow> waiting q i \<Longrightarrow>
       (priority_value (priority m), i) \<in> set (queues q (priority m))"
  using assms unfolding queues_ok_def by blast+

lemma queues_okI:
  assumes "\<And>p. sorted (queues q p)" "\<And>p. distinct (queues q p)"
    "\<And>p e. e \<in> set (queues q p) \<Longrightarrow> fst e = priority_value p"
    "\<And>p e. e \<in> set (queues q p) \<Longrightarrow> waiting q (snd e)"
    "\<And>p e. e \<in> set (queues q p) \<Longrightarrow> \<exists>m. messages q (snd e) = Some m \<and> priority m = p"
    "\<And>i m. messages q i = Some m \<Longrightarrow> waiting q i \<Longrightarrow>
       (priority_value (priority m), i) \<in> set (queues q (priority m))"
  shows "queues_ok q"
  unfolding queues_ok_def using assms by blast

lemma enqueue_queues:
  assumes ok: "queues_ok q" and fresh: "messages q i = None" "message_states q i = None"
    and nf: "\<not> pq_full (max_size q) (queues q prio)"
  shows "queues_ok (snd (enqueue i now c prio q))"
proof -
  let ?q = "snd (enqueue i now c prio q)"
  note f = enqueue_fields[OF nf, of i now c]
  have notin: "snd e \<noteq> i" if "e \<in> set (queues q p)" for p e
    using queues_okD(5)[OF ok that] fresh(1) by auto
  have w: "waiting ?q j = (j = i \<or> waiting q j)" for j
    using fresh(2) by (simp add: waiting_def f(3))
  have qs: "set (queues ?q p) = (if p = prio then insert (priority_value prio, i) (set (queues q p)) else set (queues q p))" for p
    by (simp add: f(4) set_insort_key)
  show ?thesis
  proof (rule queues_okI)
    fix p
    show "sorted (queues ?q p)"
      using queues_okD(1)[OF ok] by (simp add: f(4) sorted_insort)
    have "(priority_value prio, i) \<notin> set (queues q prio)"
      using notin[of "(priority_value prio, i)" prio] by auto
    then show "distinct (queues ?q p)"
      using queues_okD(2)[OF ok] by (simp add: f(4) distinct_insort)
  next
    fix p e assume e: "e \<in> set (queues ?q p)"
    then consider (new) "p = prio" "e = (priority_value prio, i)" | (old) "e \<in> set (queues q p)"
      by (auto simp: qs split: if_splits)
    then show "fst e = priority_value p"
    proof cases
      case new then show ?thesis by simp
    next
      case old then show ?thesis using queues_okD(3)[OF ok] by blast
    qed
    from e consider (new) "p = prio" "e = (priority_value prio, i)" | (old) "e \<in> set (queues q p)"
      by (auto simp: qs split: if_splits)
    then show "waiting ?q (snd e)"
    proof cases
      case new then show ?thesis by (simp add: w)
    next
      case old then show ?thesis using queues_okD(4)[OF ok old] by (simp add: w)
    qed
    from e consider (new) "p = prio" "e = (priority_value prio, i)" | (old) "e \<in> set (queues q p)"
      by (auto simp: qs split: if_splits)
    then show "\<exists>m. messages ?q (snd e) = Some m \<and> priority m = p"
    proof cases
      case new then show ?thesis by (simp add: f(2))
    next
      case old
      then show ?thesis using queues_okD(5)[OF ok old] notin[OF old] by (simp add: f(2))
    qed
  next
    fix j m assume m: "messages ?q j = Some m" and wj: "waiting ?q j"
    show "(priority_value (priority m), j) \<in> set (queues ?q (priority m))"
    proof (cases "j = i")
      case True
      then have "priority m = prio" using m by (auto simp: f(2))
      then show ?thesis using True by (simp add: qs)
    next
      case False
      then have "messages q j = Some m" "waiting q j"
        using m wj w by (auto simp: f(2))
      then have "(priority_value (priority m), j) \<in> set (queues q (priority m))"
        using queues_okD(6)[OF ok] by blast
      then show ?thesis by (auto simp: qs)
    qed
  qed
qed


lemma consistentD:
  assumes "consistent q"
  shows "tracking_ok q" "queues_ok q" "stats_ok q"
  using assms by (simp_all add: consistent_def)

lemma enqueue_consistent:
  assumes c: "consistent q" and fresh: "messages q i = None" "message_states q i = None"
    and nf: "\<not> pq_full (max_size q) (queues q prio)"
  shows "consistent (snd (enqueue i now c prio q))"
  unfolding consistent_def
proof (intro conjI)
  show "tracking_ok (snd (enqueue i now c prio q))"
    by (rule enqueue_tracking[OF consistentD(1)[OF c] fresh(1) nf])
  show "queues_ok (snd (enqueue i now c prio q))"
    by (rule enqueue_queues[OF consistentD(2)[OF c] fresh nf])
  show "stats_ok (snd (enqueue i now c prio q))"
    by (rule enqueue_stats[OF consistentD(3)[OF c] consistentD(1)[OF c] fresh(2) nf])
qed



lemma tracking_okD:
  assumes "tracking_ok q"
  shows "finite (dom (messages q))" "dom (message_states q) = dom (messages q)"
    "messages q i = Some m \<Longrightarrow> msg_id m = i"
    "messages q i = Some m \<Longrightarrow> message_states q i = Some PROCESSING \<Longrightarrow> processing_started m \<noteq> None"
  using assms unfolding tracking_ok_def by blast+

lemma tracking_okI:
  assumes "finite (dom (messages q))" "dom (message_states q) = dom (messages q)"
    "\<And>i m. messages q i = Some m \<Longrightarrow> msg_id m = i"
    "\<And>i m. messages q i = Some m \<Longrightarrow> message_states q i = Some PROCESSING \<Longrightarrow> processing_started m \<noteq> None"
  shows "tracking_ok q"
  unfolding tracking_ok_def using assms by blast

lemma stats_okD:
  assumes "stats_ok q"
  shows "states (stats q) s = int (card (bucket (message_states q) s))"
    "total_received (stats q) = int (card (dom (message_states q)))"
    "total_processed (stats q) = int (card (bucket (message_states q) COMPLETED))"
    "total_failed (stats q) = int (card (bucket (message_states q) FAILED))"
  using assms unfolding stats_ok_def by blast+

lemma stats_change:
  assumes ok: "stats_ok q" and fin: "finite (dom (message_states q))"
    and old: "message_states q i = Some old"
    and ms: "message_states q' = (message_states q)(i \<mapsto> new)"
    and st: "\<And>s'. states (stats q') s' =
               states (stats q) s' - (if s' = old then 1 else 0) + (if s' = new then 1 else 0)"
    and r: "total_received (stats q') = total_received (stats q)"
    and p: "total_processed (stats q') = total_processed (stats q)
               - (if COMPLETED = old then 1 else 0) + (if COMPLETED = new then 1 else 0)"
    and f: "total_failed (stats q') = total_failed (stats q)
               - (if FAILED = old then 1 else 0) + (if FAILED = new then 1 else 0)"
  shows "stats_ok q'"
proof -
  have d: "dom (message_states q') = dom (message_states q)"
    using old by (auto simp: ms)
  have b: "int (card (bucket (message_states q') s')) =
           int (card (bucket (message_states q) s')) - (if s' = old then 1 else 0) + (if s' = new then 1 else 0)" for s'
    unfolding ms by (rule bucket_change[OF old fin])
  show ?thesis
    unfolding stats_ok_def
  proof (intro conjI allI)
    fix s show "states (stats q') s = int (card (bucket (message_states q') s))"
      by (simp only: st b stats_okD(1)[OF ok])
    show "total_received (stats q') = int (card (dom (message_states q')))"
      by (simp only: r d stats_okD(2)[OF ok])
    show "total_processed (stats q') = int (card (bucket (message_states q') COMPLETED))"
      by (simp only: p b stats_okD(3)[OF ok])
    show "total_failed (stats q') = int (card (bucket (message_states q') FAILED))"
      by (simp only: f b stats_okD(4)[OF ok])
  qed
qed

subsection \<open>dequeue\<close>

lemma dequeue_loop_single:
  assumes "queues q p = e # es" "messages q (snd e) = Some m"
  shows "dequeue_loop now (p # ps) q =
     (Some (m\<lparr>processing_started := Some now\<rparr>),
      (update_message_state (snd e) PROCESSING (q\<lparr>queues := (queues q)(p := es)\<rparr>))
        \<lparr>messages := (messages q)(snd e \<mapsto> m\<lparr>processing_started := Some now\<rparr>)\<rparr>)"
  using assms by (simp add: pq_empty_def Let_def ums_fields)

lemma dequeue_loop_skip:
  assumes "queues q p = []"
  shows "dequeue_loop now (p # ps) q = dequeue_loop now ps q"
  using assms by (simp add: pq_empty_def)

declare dequeue_loop.simps(2) [simp del]

lemma dequeue_loop_find:
  assumes ok: "queues_ok q"
  shows "dequeue_loop now ps q =
     (case find (\<lambda>p. queues q p \<noteq> []) ps of
        None \<Rightarrow> (None, q)
      | Some p \<Rightarrow> dequeue_loop now [p] q)"
proof (induction ps)
  case Nil
  show ?case by simp
next
  case (Cons p ps)
  show ?case
  proof (cases "queues q p")
    case Nil
    then show ?thesis using Cons by (simp add: dequeue_loop_skip)
  next
    case (Cons e es)
    then have "e \<in> set (queues q p)" by simp
    from queues_okD(5)[OF ok this] obtain m where m: "messages q (snd e) = Some m" by blast
    show ?thesis
      by (simp add: dequeue_loop_single[OF Cons m] Cons)
  qed
qed

lemma pop_fields:
  assumes qp: "queues q p = e # es" and m: "messages q (snd e) = Some m"
  shows "fst (dequeue_loop now [p] q) = Some (m\<lparr>processing_started := Some now\<rparr>)"
    "messages (snd (dequeue_loop now [p] q)) = (messages q)(snd e \<mapsto> m\<lparr>processing_started := Some now\<rparr>)"
    "message_states (snd (dequeue_loop now [p] q)) = (message_states q)(snd e \<mapsto> PROCESSING)"
    "queues (snd (dequeue_loop now [p] q)) = (queues q)(p := es)"
    "max_size (snd (dequeue_loop now [p] q)) = max_size q"
    "max_retries (snd (dequeue_loop now [p] q)) = max_retries q"
    "total_received (stats (snd (dequeue_loop now [p] q))) = total_received (stats q)"
    "total_processed (stats (snd (dequeue_loop now [p] q))) = total_processed (stats q)"
    "total_failed (stats (snd (dequeue_loop now [p] q))) = total_failed (stats q)"
    "total_retried (stats (snd (dequeue_loop now [p] q))) = total_retried (stats q)"
    "states (stats (snd (dequeue_loop now [p] q))) s' =
       (case message_states q (snd e) of
          Some old \<Rightarrow> states (stats q) s' - (if s' = old then 1 else 0) + (if s' = PROCESSING then 1 else 0)
        | None \<Rightarrow> states (stats q) s' + (if s' = PROCESSING then 1 else 0))"
  by (simp_all add: dequeue_loop_single[OF qp m] ums_fields ums_states split: option.splits)

lemma pop_tracking:
  assumes t: "tracking_ok q" and qp: "queues q p = e # es" and m: "messages q (snd e) = Some m"
  shows "tracking_ok (snd (dequeue_loop now [p] q))"
proof (rule tracking_okI)
  note f = pop_fields[OF qp m, of now]
  have d: "snd e \<in> dom (messages q)" using m by auto
  show "finite (dom (messages (snd (dequeue_loop now [p] q))))"
    using tracking_okD(1)[OF t] by (simp add: f(2))
  show "dom (message_states (snd (dequeue_loop now [p] q))) = dom (messages (snd (dequeue_loop now [p] q)))"
    using tracking_okD(2)[OF t] by (simp add: f(2,3))
  fix i m' assume a: "messages (snd (dequeue_loop now [p] q)) i = Some m'"
  show "msg_id m' = i"
  proof (cases "i = snd e")
    case True
    then have "m' = m\<lparr>processing_started := Some now\<rparr>" using a by (simp add: f(2))
    then show ?thesis using tracking_okD(3)[OF t m] True by simp
  next
    case False
    then have "messages q i = Some m'" using a by (simp add: f(2))
    then show ?thesis by (rule tracking_okD(3)[OF t])
  qed
  assume s: "message_states (snd (dequeue_loop now [p] q)) i = Some PROCESSING"
  show "processing_started m' \<noteq> None"
  proof (cases "i = snd e")
    case True
    then have "m' = m\<lparr>processing_started := Some now\<rparr>" using a by (simp add: f(2))
    then show ?thesis by simp
  next
    case False
    then have "messages q i = Some m'" "message_states q i = Some PROCESSING"
      using a s by (simp_all add: f(2,3))
    then show ?thesis by (rule tracking_okD(4)[OF t])
  qed
qed

lemma pop_stats:
  assumes ok: "stats_ok q" and t: "tracking_ok q" and qo: "queues_ok q"
    and qp: "queues q p = e # es" and m: "messages q (snd e) = Some m"
  shows "stats_ok (snd (dequeue_loop now [p] q))"
proof -
  note f = pop_fields[OF qp m, of now]
  have "e \<in> set (queues q p)" using qp by simp
  then have w: "waiting q (snd e)" by (rule queues_okD(4)[OF qo])
  then obtain old where old: "message_states q (snd e) = Some old" "old = PENDING \<or> old = RETRYING"
    by (auto simp: waiting_def)
  have fin: "finite (dom (message_states q))"
    using tracking_okD(1,2)[OF t] by simp
  show ?thesis
  proof (rule stats_change[OF ok fin old(1) f(3)])
    fix s' show "states (stats (snd (dequeue_loop now [p] q))) s' =
        states (stats q) s' - (if s' = old then 1 else 0) + (if s' = PROCESSING then 1 else 0)"
      by (simp add: f(11) old(1))
    show "total_received (stats (snd (dequeue_loop now [p] q))) = total_received (stats q)"
      by (rule f(7))
    show "total_processed (stats (snd (dequeue_loop now [p] q))) =
        total_processed (stats q) - (if COMPLETED = old then 1 else 0) + (if COMPLETED = PROCESSING then 1 else 0)"
      using old(2) by (auto simp: f(8))
    show "total_failed (stats (snd (dequeue_loop now [p] q))) =
        total_failed (stats q) - (if FAILED = old then 1 else 0) + (if FAILED = PROCESSING then 1 else 0)"
      using old(2) by (auto simp: f(9))
  qed
qed

lemma pop_queues:
  assumes qo: "queues_ok q" and qp: "queues q p = e # es" and m: "messages q (snd e) = Some m"
  shows "queues_ok (snd (dequeue_loop now [p] q))"
proof -
  let ?q = "snd (dequeue_loop now [p] q)"
  note f = pop_fields[OF qp m, of now]
  have ein: "e \<in> set (queues q p)" using qp by simp
  have pm: "priority m = p" using queues_okD(5)[OF qo ein] m by auto
  have fe: "fst e = priority_value p" by (rule queues_okD(3)[OF qo ein])
  have dist: "distinct (e # es)" using queues_okD(2)[OF qo, of p] qp by simp
  have sub: "set (queues ?q p') \<subseteq> set (queues q p')" for p'
    using qp by (auto simp: f(4))
  have w: "waiting ?q j = (j \<noteq> snd e \<and> waiting q j)" for j
    by (simp add: waiting_def f(3))
  have other: "snd e' \<noteq> snd e" if "e' \<in> set (queues ?q p')" for e' p'
  proof
    assume eq: "snd e' = snd e"
    have in': "e' \<in> set (queues q p')" using that sub by blast
    from queues_okD(5)[OF qo in'] m eq pm have pp: "p' = p" by auto
    from queues_okD(3)[OF qo in'] pp fe eq have "e' = e" by (simp add: prod_eq_iff)
    moreover have "e' \<in> set es" using that pp by (simp add: f(4))
    ultimately show False using dist by simp
  qed
  show ?thesis
  proof (rule queues_okI)
    fix p'
    show "sorted (queues ?q p')"
      using queues_okD(1)[OF qo, of p'] qp by (auto simp: f(4))
    show "distinct (queues ?q p')"
      using queues_okD(2)[OF qo, of p'] qp by (auto simp: f(4))
  next
    fix p' e' assume e': "e' \<in> set (queues ?q p')"
    then have in': "e' \<in> set (queues q p')" using sub by blast
    show "fst e' = priority_value p'" by (rule queues_okD(3)[OF qo in'])
    show "waiting ?q (snd e')"
      using queues_okD(4)[OF qo in'] other[OF e'] by (simp add: w)
    show "\<exists>m. messages ?q (snd e') = Some m \<and> priority m = p'"
      using queues_okD(5)[OF qo in'] other[OF e'] by (simp add: f(2))
  next
    fix j m' assume a: "messages ?q j = Some m'" and wj: "waiting ?q j"
    then have j: "j \<noteq> snd e" "waiting q j" by (simp_all add: w)
    then have mj: "messages q j = Some m'" using a by (simp add: f(2))
    have inq: "(priority_value (priority m'), j) \<in> set (queues q (priority m'))"
      by (rule queues_okD(6)[OF qo mj j(2)])
    have "(priority_value (priority m'), j) \<noteq> e" using j(1) by auto
    then show "(priority_value (priority m'), j) \<in> set (queues ?q (priority m'))"
      using inq qp by (auto simp: f(4))
  qed
qed

lemma dequeue_consistent:
  assumes c: "consistent q"
  shows "consistent (snd (dequeue now q))"
proof (cases "find (\<lambda>p. queues q p \<noteq> []) all_priorities")
  case None
  then show ?thesis
    using c by (simp add: dequeue_def dequeue_loop_find[OF consistentD(2)[OF c]])
next
  case (Some p)
  then have "queues q p \<noteq> []" by (auto dest: find_Some_iff[THEN iffD1])
  then obtain e es where qp: "queues q p = e # es" by (cases "queues q p") auto
  then have "e \<in> set (queues q p)" by simp
  from queues_okD(5)[OF consistentD(2)[OF c] this] obtain m
    where m: "messages q (snd e) = Some m" by blast
  have eq: "dequeue now q = dequeue_loop now [p] q"
    by (simp add: dequeue_def dequeue_loop_find[OF consistentD(2)[OF c]] Some)
  show ?thesis
    unfolding eq consistent_def
  proof (intro conjI)
    show "tracking_ok (snd (dequeue_loop now [p] q))"
      by (rule pop_tracking[OF consistentD(1)[OF c] qp m])
    show "queues_ok (snd (dequeue_loop now [p] q))"
      by (rule pop_queues[OF consistentD(2)[OF c] qp m])
    show "stats_ok (snd (dequeue_loop now [p] q))"
      by (rule pop_stats[OF consistentD(3)[OF c] consistentD(1)[OF c] consistentD(2)[OF c] qp m])
  qed
qed



subsection \<open>mark_completed\<close>

lemma mark_completed_fields:
  assumes m: "messages q i = Some m" and st: "processing_started m = Some t"
  shows "fst (mark_completed i now q) = Returned ()"
    "messages (snd (mark_completed i now q)) = (messages q)(i \<mapsto> m\<lparr>processing_completed := Some now\<rparr>)"
    "message_states (snd (mark_completed i now q)) = (message_states q)(i \<mapsto> COMPLETED)"
    "queues (snd (mark_completed i now q)) = queues q"
    "max_size (snd (mark_completed i now q)) = max_size q"
    "max_retries (snd (mark_completed i now q)) = max_retries q"
    "total_received (stats (snd (mark_completed i now q))) = total_received (stats q)"
    "total_processed (stats (snd (mark_completed i now q))) = total_processed (stats q) + 1"
    "total_failed (stats (snd (mark_completed i now q))) = total_failed (stats q)"
    "total_retried (stats (snd (mark_completed i now q))) = total_retried (stats q)"
    "states (stats (snd (mark_completed i now q))) s' =
       (case message_states q i of
          Some old \<Rightarrow> states (stats q) s' - (if s' = old then 1 else 0) + (if s' = COMPLETED then 1 else 0)
        | None \<Rightarrow> states (stats q) s' + (if s' = COMPLETED then 1 else 0))"
    "processing_times (stats (snd (mark_completed i now q))) =
       processing_times (update_processing_time (now - t) (stats q))"
  using assms
  by (simp_all add: mark_completed_def Let_def ums_fields ums_states update_processing_time_def
      split: option.splits)

lemma tracked_of_state:
  assumes t: "tracking_ok q" and s: "message_states q i = Some x"
  shows "\<exists>m. messages q i = Some m"
proof -
  have "i \<in> dom (message_states q)" using s by auto
  then have "i \<in> dom (messages q)" using tracking_okD(2)[OF t] by simp
  then show ?thesis by auto
qed

lemma not_queued:
  assumes qo: "queues_ok q" and nw: "\<not> waiting q i"
    and e: "e \<in> set (queues q p)"
  shows "snd e \<noteq> i"
proof
  assume "snd e = i"
  then show False using queues_okD(4)[OF qo e] nw by simp
qed

lemma mark_completed_consistent:
  assumes c: "consistent q" and s: "message_states q i = Some PROCESSING"
  shows "consistent (snd (mark_completed i now q))"
proof -
  let ?q = "snd (mark_completed i now q)"
  note t = consistentD(1)[OF c] and qo = consistentD(2)[OF c] and so = consistentD(3)[OF c]
  from tracked_of_state[OF t s] obtain m where m: "messages q i = Some m" by blast
  from tracking_okD(4)[OF t m s] obtain t0 where t0: "processing_started m = Some t0" by auto
  note f = mark_completed_fields[OF m t0, of now]
  have nw: "\<not> waiting q i" using s by (simp add: waiting_def)
  have w: "waiting ?q j = waiting q j" for j
    using nw by (auto simp: waiting_def f(3))
  have fin: "finite (dom (message_states q))" using tracking_okD(1,2)[OF t] by simp
  have T: "tracking_ok ?q"
  proof (rule tracking_okI)
    show "finite (dom (messages ?q))" using tracking_okD(1)[OF t] by (simp add: f(2))
    show "dom (message_states ?q) = dom (messages ?q)"
      using tracking_okD(2)[OF t] by (simp add: f(2,3))
    fix j m' assume a: "messages ?q j = Some m'"
    show "msg_id m' = j"
    proof (cases "j = i")
      case True
      then have "m' = m\<lparr>processing_completed := Some now\<rparr>" using a by (simp add: f(2))
      then show ?thesis using tracking_okD(3)[OF t m] True by simp
    next
      case False
      then have "messages q j = Some m'" using a by (simp add: f(2))
      then show ?thesis by (rule tracking_okD(3)[OF t])
    qed
    assume sj: "message_states ?q j = Some PROCESSING"
    then have ji: "j \<noteq> i" by (auto simp: f(3))
    then have "messages q j = Some m'" "message_states q j = Some PROCESSING"
      using a sj by (simp_all add: f(2,3))
    then show "processing_started m' \<noteq> None" by (rule tracking_okD(4)[OF t])
  qed
  have Q: "queues_ok ?q"
  proof (rule queues_okI)
    fix p
    show "sorted (queues ?q p)" using queues_okD(1)[OF qo] by (simp add: f(4))
    show "distinct (queues ?q p)" using queues_okD(2)[OF qo] by (simp add: f(4))
  next
    fix p e assume "e \<in> set (queues ?q p)"
    then have e: "e \<in> set (queues q p)" by (simp add: f(4))
    show "fst e = priority_value p" by (rule queues_okD(3)[OF qo e])
    show "waiting ?q (snd e)" using queues_okD(4)[OF qo e] by (simp add: w)
    show "\<exists>m. messages ?q (snd e) = Some m \<and> priority m = p"
      using queues_okD(5)[OF qo e] not_queued[OF qo nw e] by (simp add: f(2))
  next
    fix j m' assume a: "messages ?q j = Some m'" and wj: "waiting ?q j"
    then have "j \<noteq> i" "waiting q j" using nw by (auto simp: w)
    then have "messages q j = Some m'" "waiting q j" using a by (simp_all add: f(2))
    then show "(priority_value (priority m'), j) \<in> set (queues ?q (priority m'))"
      using queues_okD(6)[OF qo] by (simp add: f(4))
  qed
  have S: "stats_ok ?q"
  proof (rule stats_change[OF so fin s f(3)])
    fix s' show "states (stats ?q) s' =
        states (stats q) s' - (if s' = PROCESSING then 1 else 0) + (if s' = COMPLETED then 1 else 0)"
      by (simp add: f(11) s)
    show "total_received (stats ?q) = total_received (stats q)" by (rule f(7))
    show "total_processed (stats ?q) =
        total_processed (stats q) - (if COMPLETED = PROCESSING then 1 else 0) + (if COMPLETED = COMPLETED then 1 else 0)"
      by (simp add: f(8))
    show "total_failed (stats ?q) =
        total_failed (stats q) - (if FAILED = PROCESSING then 1 else 0) + (if FAILED = COMPLETED then 1 else 0)"
      by (simp add: f(9))
  qed
  show ?thesis unfolding consistent_def using T Q S by (intro conjI)
qed

subsection \<open>mark_failed\<close>

lemma mark_failed_retry_fields:
  assumes m: "messages q i = Some m" and r: "retries m < max_retries q"
    and nf: "\<not> pq_full (max_size q) (queues q (priority m))"
  shows "fst (mark_failed i err q) = Returned ()"
    "messages (snd (mark_failed i err q)) =
       (messages q)(i \<mapsto> m\<lparr>error := Some err, retries := retries m + 1\<rparr>)"
    "message_states (snd (mark_failed i err q)) = (message_states q)(i \<mapsto> RETRYING)"
    "queues (snd (mark_failed i err q)) =
       (queues q)(priority m := insort (priority_value (priority m), i) (queues q (priority m)))"
    "max_size (snd (mark_failed i err q)) = max_size q"
    "max_retries (snd (mark_failed i err q)) = max_retries q"
    "total_received (stats (snd (mark_failed i err q))) = total_received (stats q)"
    "total_processed (stats (snd (mark_failed i err q))) = total_processed (stats q)"
    "total_failed (stats (snd (mark_failed i err q))) = total_failed (stats q)"
    "total_retried (stats (snd (mark_failed i err q))) = total_retried (stats q) + 1"
    "states (stats (snd (mark_failed i err q))) s' =
       (case message_states q i of
          Some old \<Rightarrow> states (stats q) s' - (if s' = old then 1 else 0) + (if s' = RETRYING then 1 else 0)
        | None \<Rightarrow> states (stats q) s' + (if s' = RETRYING then 1 else 0))"
  using assms
  by (simp_all add: mark_failed_def Let_def ums_fields ums_states pq_put_def split: option.splits)

lemma mark_failed_final_fields:
  assumes m: "messages q i = Some m" and r: "\<not> retries m < max_retries q"
  shows "fst (mark_failed i err q) = Returned ()"
    "messages (snd (mark_failed i err q)) = (messages q)(i \<mapsto> m\<lparr>error := Some err\<rparr>)"
    "message_states (snd (mark_failed i err q)) = (message_states q)(i \<mapsto> FAILED)"
    "queues (snd (mark_failed i err q)) = queues q"
    "max_size (snd (mark_failed i err q)) = max_size q"
    "max_retries (snd (mark_failed i err q)) = max_retries q"
    "total_received (stats (snd (mark_failed i err q))) = total_received (stats q)"
    "total_processed (stats (snd (mark_failed i err q))) = total_processed (stats q)"
    "total_failed (stats (snd (mark_failed i err q))) = total_failed (stats q) + 1"
    "total_retried (stats (snd (mark_failed i err q))) = total_retried (stats q)"
    "states (stats (snd (mark_failed i err q))) s' =
       (case message_states q i of
          Some old \<Rightarrow> states (stats q) s' - (if s' = old then 1 else 0) + (if s' = FAILED then 1 else 0)
        | None \<Rightarrow> states (stats q) s' + (if s' = FAILED then 1 else 0))"
  using assms
  by (simp_all add: mark_failed_def Let_def ums_fields ums_states split: option.splits)



lemma mark_failed_final_consistent:
  assumes c: "consistent q" and s: "message_states q i = Some PROCESSING"
    and m: "messages q i = Some m" and r: "\<not> retries m < max_retries q"
  shows "consistent (snd (mark_failed i err q))"
proof -
  let ?q = "snd (mark_failed i err q)"
  note t = consistentD(1)[OF c] and qo = consistentD(2)[OF c] and so = consistentD(3)[OF c]
  note f = mark_failed_final_fields[OF m r, of err]
  have nw: "\<not> waiting q i" using s by (simp add: waiting_def)
  have w: "waiting ?q j = waiting q j" for j
    using nw by (auto simp: waiting_def f(3))
  have fin: "finite (dom (message_states q))" using tracking_okD(1,2)[OF t] by simp
  have T: "tracking_ok ?q"
  proof (rule tracking_okI)
    show "finite (dom (messages ?q))" using tracking_okD(1)[OF t] by (simp add: f(2))
    show "dom (message_states ?q) = dom (messages ?q)"
      using tracking_okD(2)[OF t] by (simp add: f(2,3))
    fix j m' assume a: "messages ?q j = Some m'"
    show "msg_id m' = j"
    proof (cases "j = i")
      case True
      then have "m' = m\<lparr>error := Some err\<rparr>" using a by (simp add: f(2))
      then show ?thesis using tracking_okD(3)[OF t m] True by simp
    next
      case False
      then have "messages q j = Some m'" using a by (simp add: f(2))
      then show ?thesis by (rule tracking_okD(3)[OF t])
    qed
    assume sj: "message_states ?q j = Some PROCESSING"
    then have ji: "j \<noteq> i" by (auto simp: f(3))
    then have "messages q j = Some m'" "message_states q j = Some PROCESSING"
      using a sj by (simp_all add: f(2,3))
    then show "processing_started m' \<noteq> None" by (rule tracking_okD(4)[OF t])
  qed
  have Q: "queues_ok ?q"
  proof (rule queues_okI)
    fix p
    show "sorted (queues ?q p)" using queues_okD(1)[OF qo] by (simp add: f(4))
    show "distinct (queues ?q p)" using queues_okD(2)[OF qo] by (simp add: f(4))
  next
    fix p e assume "e \<in> set (queues ?q p)"
    then have e: "e \<in> set (queues q p)" by (simp add: f(4))
    show "fst e = priority_value p" by (rule queues_okD(3)[OF qo e])
    show "waiting ?q (snd e)" using queues_okD(4)[OF qo e] by (simp add: w)
    show "\<exists>m. messages ?q (snd e) = Some m \<and> priority m = p"
      using queues_okD(5)[OF qo e] not_queued[OF qo nw e] by (simp add: f(2))
  next
    fix j m' assume a: "messages ?q j = Some m'" and wj: "waiting ?q j"
    then have "j \<noteq> i" "waiting q j" using nw by (auto simp: w)
    then have "messages q j = Some m'" "waiting q j" using a by (simp_all add: f(2))
    then show "(priority_value (priority m'), j) \<in> set (queues ?q (priority m'))"
      using queues_okD(6)[OF qo] by (simp add: f(4))
  qed
  have S: "stats_ok ?q"
  proof (rule stats_change[OF so fin s f(3)])
    fix s' show "states (stats ?q) s' =
        states (stats q) s' - (if s' = PROCESSING then 1 else 0) + (if s' = FAILED then 1 else 0)"
      by (simp add: f(11) s)
    show "total_received (stats ?q) = total_received (stats q)" by (rule f(7))
    show "total_processed (stats ?q) =
        total_processed (stats q) - (if COMPLETED = PROCESSING then 1 else 0) + (if COMPLETED = FAILED then 1 else 0)"
      by (simp add: f(8))
    show "total_failed (stats ?q) =
        total_failed (stats q) - (if FAILED = PROCESSING then 1 else 0) + (if FAILED = FAILED then 1 else 0)"
      by (simp add: f(9))
  qed
  show ?thesis unfolding consistent_def using T Q S by (intro conjI)
qed

lemma mark_failed_retry_consistent:
  assumes c: "consistent q" and s: "message_states q i = Some PROCESSING"
    and m: "messages q i = Some m" and r: "retries m < max_retries q"
    and nf: "\<not> pq_full (max_size q) (queues q (priority m))"
  shows "consistent (snd (mark_failed i err q))"
proof -
  let ?q = "snd (mark_failed i err q)"
  let ?e = "(priority_value (priority m), i)"
  note t = consistentD(1)[OF c] and qo = consistentD(2)[OF c] and so = consistentD(3)[OF c]
  note f = mark_failed_retry_fields[OF m r nf, of err]
  have nw: "\<not> waiting q i" using s by (simp add: waiting_def)
  have w: "waiting ?q j = (j = i \<or> waiting q j)" for j
    by (auto simp: waiting_def f(3))
  have fin: "finite (dom (message_states q))" using tracking_okD(1,2)[OF t] by simp
  have qs: "set (queues ?q p) =
      (if p = priority m then insert ?e (set (queues q p)) else set (queues q p))" for p
    by (simp add: f(4) set_insort_key)
  have T: "tracking_ok ?q"
  proof (rule tracking_okI)
    show "finite (dom (messages ?q))" using tracking_okD(1)[OF t] by (simp add: f(2))
    show "dom (message_states ?q) = dom (messages ?q)"
      using tracking_okD(2)[OF t] by (simp add: f(2,3))
    fix j m' assume a: "messages ?q j = Some m'"
    show "msg_id m' = j"
    proof (cases "j = i")
      case True
      then have "m' = m\<lparr>error := Some err, retries := retries m + 1\<rparr>" using a by (simp add: f(2))
      then show ?thesis using tracking_okD(3)[OF t m] True by simp
    next
      case False
      then have "messages q j = Some m'" using a by (simp add: f(2))
      then show ?thesis by (rule tracking_okD(3)[OF t])
    qed
    assume sj: "message_states ?q j = Some PROCESSING"
    then have ji: "j \<noteq> i" by (auto simp: f(3))
    then have "messages q j = Some m'" "message_states q j = Some PROCESSING"
      using a sj by (simp_all add: f(2,3))
    then show "processing_started m' \<noteq> None" by (rule tracking_okD(4)[OF t])
  qed
  have Q: "queues_ok ?q"
  proof (rule queues_okI)
    fix p
    show "sorted (queues ?q p)"
      using queues_okD(1)[OF qo] by (simp add: f(4) sorted_insort)
    have "?e \<notin> set (queues q (priority m))"
      using not_queued[OF qo nw, of ?e "priority m"] by auto
    then show "distinct (queues ?q p)"
      using queues_okD(2)[OF qo] by (simp add: f(4) distinct_insort)
  next
    fix p e assume e: "e \<in> set (queues ?q p)"
    then consider (new) "p = priority m" "e = ?e" | (old) "e \<in> set (queues q p)"
      by (auto simp: qs split: if_splits)
    then show "fst e = priority_value p"
    proof cases
      case new then show ?thesis by simp
    next
      case old then show ?thesis using queues_okD(3)[OF qo] by blast
    qed
    from e consider (new) "p = priority m" "e = ?e" | (old) "e \<in> set (queues q p)"
      by (auto simp: qs split: if_splits)
    then show "waiting ?q (snd e)"
    proof cases
      case new then show ?thesis by (simp add: w)
    next
      case old then show ?thesis using queues_okD(4)[OF qo old] by (simp add: w)
    qed
    from e consider (new) "p = priority m" "e = ?e" | (old) "e \<in> set (queues q p)"
      by (auto simp: qs split: if_splits)
    then show "\<exists>m. messages ?q (snd e) = Some m \<and> priority m = p"
    proof cases
      case new then show ?thesis by (simp add: f(2))
    next
      case old
      then show ?thesis using queues_okD(5)[OF qo old] not_queued[OF qo nw old] by (simp add: f(2))
    qed
  next
    fix j m' assume a: "messages ?q j = Some m'" and wj: "waiting ?q j"
    show "(priority_value (priority m'), j) \<in> set (queues ?q (priority m'))"
    proof (cases "j = i")
      case True
      then have "priority m' = priority m" using a by (auto simp: f(2))
      then show ?thesis using True by (simp add: qs)
    next
      case False
      then have "messages q j = Some m'" "waiting q j"
        using a wj w by (auto simp: f(2))
      then have "(priority_value (priority m'), j) \<in> set (queues q (priority m'))"
        using queues_okD(6)[OF qo] by blast
      then show ?thesis by (auto simp: qs)
    qed
  qed
  have S: "stats_ok ?q"
  proof (rule stats_change[OF so fin s f(3)])
    fix s' show "states (stats ?q) s' =
        states (stats q) s' - (if s' = PROCESSING then 1 else 0) + (if s' = RETRYING then 1 else 0)"
      by (simp add: f(11) s)
    show "total_received (stats ?q) = total_received (stats q)" by (rule f(7))
    show "total_processed (stats ?q) =
        total_processed (stats q) - (if COMPLETED = PROCESSING then 1 else 0) + (if COMPLETED = RETRYING then 1 else 0)"
      by (simp add: f(8))
    show "total_failed (stats ?q) =
        total_failed (stats q) - (if FAILED = PROCESSING then 1 else 0) + (if FAILED = RETRYING then 1 else 0)"
      by (simp add: f(9))
  qed
  show ?thesis unfolding consistent_def using T Q S by (intro conjI)
qed

lemma step_consistent:
  assumes c: "consistent q" and p: "op_in_protocol x q"
  shows "consistent (step x q)"
proof (cases x)
  case (Enqueue i now msg prio)
  then show ?thesis using p enqueue_consistent[OF c] by simp
next
  case (Dequeue now)
  then show ?thesis using dequeue_consistent[OF c] by simp
next
  case (MarkCompleted i now)
  then show ?thesis using p mark_completed_consistent[OF c] by simp
next
  case (MarkFailed i err)
  then have s: "message_states q i = Some PROCESSING" using p by simp
  from tracked_of_state[OF consistentD(1)[OF c] s] obtain m where m: "messages q i = Some m" by blast
  show ?thesis
  proof (cases "retries m < max_retries q")
    case True
    then have nf: "\<not> pq_full (max_size q) (queues q (priority m))" using p MarkFailed m by simp
    show ?thesis using mark_failed_retry_consistent[OF c s m True nf] MarkFailed by simp
  next
    case False
    then show ?thesis using mark_failed_final_consistent[OF c s m False] MarkFailed by simp
  qed
qed

lemma run_consistent:
  "consistent q \<Longrightarrow> in_protocol q xs \<Longrightarrow> consistent (run q xs)"
proof (induction xs arbitrary: q)
  case Nil
  then show ?case by simp
next
  case (Cons x xs)
  then show ?case using step_consistent[of q x] by simp
qed

subsection \<open>Facts about whole call sequences\<close>

lemma card_dom_split:
  assumes fin: "finite (dom ms)"
  shows "int (card (dom ms)) =
     int (card (bucket ms COMPLETED)) + int (card (bucket ms FAILED)) +
     int (card {i. ms i = Some PENDING \<or> ms i = Some PROCESSING \<or> ms i = Some RETRYING})"
proof -
  let ?N = "{i. ms i = Some PENDING \<or> ms i = Some PROCESSING \<or> ms i = Some RETRYING}"
  have fN: "finite ?N" by (rule finite_subset[OF _ fin]) auto
  have fC: "finite (bucket ms COMPLETED)" and fF: "finite (bucket ms FAILED)"
    using fin by (rule finite_bucket)+
  have d: "dom ms = bucket ms COMPLETED \<union> (bucket ms FAILED \<union> ?N)"
  proof (rule set_eqI)
    fix i
    show "i \<in> dom ms \<longleftrightarrow> i \<in> bucket ms COMPLETED \<union> (bucket ms FAILED \<union> ?N)"
    proof (cases "ms i")
      case None
      then show ?thesis by (simp add: bucket_def domIff)
    next
      case (Some s)
      then show ?thesis by (cases s) (simp_all add: bucket_def domIff)
    qed
  qed
  have dis1: "bucket ms FAILED \<inter> ?N = {}" by (auto simp: bucket_def)
  have dis2: "bucket ms COMPLETED \<inter> (bucket ms FAILED \<union> ?N) = {}" by (auto simp: bucket_def)
  have "card (dom ms) = card (bucket ms COMPLETED) + card (bucket ms FAILED \<union> ?N)"
    unfolding d[symmetric] using d card_Un_disjoint[OF fC _ dis2] fF fN by simp
  also have "card (bucket ms FAILED \<union> ?N) = card (bucket ms FAILED) + card ?N"
    by (rule card_Un_disjoint[OF fF fN dis1])
  finally show ?thesis by simp
qed

lemma find_all_priorities_least:
  assumes "find P all_priorities = Some p" and "P p'"
  shows "priority_value p \<le> priority_value p'"
  using assms by (cases p; cases p') (simp_all add: all_priorities_def split: if_splits)

lemma find_all_priorities_None:
  assumes "find P all_priorities = None"
  shows "\<not> P p"
  using assms by (cases p) (simp_all add: all_priorities_def split: if_splits)

lemma dequeue_loop_max_retries:
  "max_retries (snd (dequeue_loop now ps q)) = max_retries q"
proof (induction ps arbitrary: q)
  case Nil
  show ?case by simp
next
  case (Cons p ps)
  show ?case
    by (simp add: dequeue_loop.simps(2) Let_def ums_fields Cons split: option.splits)
qed

lemma step_max_retries: "max_retries (step x q) = max_retries q"
proof (cases x)
  case (Enqueue j now c p)
  then show ?thesis by (simp add: enqueue_def Let_def)
next
  case (Dequeue now)
  then show ?thesis by (simp add: dequeue_def dequeue_loop_max_retries)
next
  case (MarkCompleted j now)
  then show ?thesis
    by (simp add: mark_completed_def Let_def ums_fields split: option.splits)
next
  case (MarkFailed j err)
  then show ?thesis
    by (simp add: mark_failed_def Let_def ums_fields split: option.splits)
qed

lemma dequeue_effect:
  assumes c: "consistent q"
  shows "snd (dequeue now q) = q \<or>
     (\<exists>j m. messages q j = Some m \<and> waiting q j \<and>
        messages (snd (dequeue now q)) = (messages q)(j \<mapsto> m\<lparr>processing_started := Some now\<rparr>) \<and>
        message_states (snd (dequeue now q)) = (message_states q)(j \<mapsto> PROCESSING) \<and>
        total_retried (stats (snd (dequeue now q))) = total_retried (stats q) \<and>
        total_failed (stats (snd (dequeue now q))) = total_failed (stats q))"
proof (cases "find (\<lambda>p. queues q p \<noteq> []) all_priorities")
  case None
  then show ?thesis
    by (simp add: dequeue_def dequeue_loop_find[OF consistentD(2)[OF c]])
next
  case (Some p)
  then have "queues q p \<noteq> []" by (auto dest: find_Some_iff[THEN iffD1])
  then obtain e es where qp: "queues q p = e # es" by (cases "queues q p") auto
  then have ein: "e \<in> set (queues q p)" by simp
  from queues_okD(5)[OF consistentD(2)[OF c] ein] obtain m
    where m: "messages q (snd e) = Some m" by blast
  have eq: "dequeue now q = dequeue_loop now [p] q"
    by (simp add: dequeue_def dequeue_loop_find[OF consistentD(2)[OF c]] Some)
  note f = pop_fields[OF qp m, of now]
  have "waiting q (snd e)" by (rule queues_okD(4)[OF consistentD(2)[OF c] ein])
  then show ?thesis
    unfolding eq using m f(2,3,9,10) by blast
qed

lemma step_lifecycle:
  assumes c: "consistent q" and p: "op_in_protocol x q"
  shows "snapshot (step x q) i = snapshot q i \<or>
         lifecycle_step (max_retries q) i x (snapshot q i) (snapshot (step x q) i)"
proof (cases x)
  case (Enqueue j now msg pr)
  then have pr: "messages q j = None" "message_states q j = None"
    "\<not> pq_full (max_size q) (queues q pr)" using p by simp_all
  note f = enqueue_fields[OF pr(3), of j now msg]
  show ?thesis
  proof (cases "j = i")
    case True
    then show ?thesis using pr Enqueue f(2,3) by (simp add: snapshot_def)
  next
    case False
    then show ?thesis using Enqueue by (simp add: snapshot_def f(2,3))
  qed
next
  case (Dequeue now)
  from dequeue_effect[OF c, of now] show ?thesis
  proof
    assume "snd (dequeue now q) = q"
    then show ?thesis using Dequeue by simp
  next
    assume "\<exists>j m. messages q j = Some m \<and> waiting q j \<and>
        messages (snd (dequeue now q)) = (messages q)(j \<mapsto> m\<lparr>processing_started := Some now\<rparr>) \<and>
        message_states (snd (dequeue now q)) = (message_states q)(j \<mapsto> PROCESSING) \<and>
        total_retried (stats (snd (dequeue now q))) = total_retried (stats q) \<and>
        total_failed (stats (snd (dequeue now q))) = total_failed (stats q)"
    then obtain j m where j: "messages q j = Some m" "waiting q j"
        "messages (snd (dequeue now q)) = (messages q)(j \<mapsto> m\<lparr>processing_started := Some now\<rparr>)"
        "message_states (snd (dequeue now q)) = (message_states q)(j \<mapsto> PROCESSING)"
      by blast
    show ?thesis
    proof (cases "j = i")
      case True
      then show ?thesis using j Dequeue by (auto simp: snapshot_def waiting_def)
    next
      case False
      then show ?thesis using j Dequeue by (simp add: snapshot_def)
    qed
  qed
next
  case (MarkCompleted j now)
  then have s: "message_states q j = Some PROCESSING" using p by simp
  from tracked_of_state[OF consistentD(1)[OF c] s] obtain m where m: "messages q j = Some m" by blast
  from tracking_okD(4)[OF consistentD(1)[OF c] m s] obtain t0 where t0: "processing_started m = Some t0" by auto
  note f = mark_completed_fields[OF m t0, of now]
  show ?thesis
  proof (cases "j = i")
    case True
    then show ?thesis using s m MarkCompleted f(2,3) by (simp add: snapshot_def)
  next
    case False
    then show ?thesis using MarkCompleted by (simp add: snapshot_def f(2,3))
  qed
next
  case (MarkFailed j err)
  then have s: "message_states q j = Some PROCESSING" using p by simp
  from tracked_of_state[OF consistentD(1)[OF c] s] obtain m where m: "messages q j = Some m" by blast
  show ?thesis
  proof (cases "retries m < max_retries q")
    case True
    then have nf: "\<not> pq_full (max_size q) (queues q (priority m))" using p MarkFailed m by simp
    note f = mark_failed_retry_fields[OF m True nf, of err]
    show ?thesis
    proof (cases "j = i")
      case j: True
      then show ?thesis using s m MarkFailed True f(2,3) by (simp add: snapshot_def)
    next
      case False
      then show ?thesis using MarkFailed by (simp add: snapshot_def f(2,3))
    qed
  next
    case False
    note f = mark_failed_final_fields[OF m False, of err]
    show ?thesis
    proof (cases "j = i")
      case j: True
      then show ?thesis using s m MarkFailed False f(2,3) by (simp add: snapshot_def)
    next
      case nj: False
      then show ?thesis using MarkFailed by (simp add: snapshot_def f(2,3))
    qed
  qed
qed


lemma transitions_lifecycle:
  assumes "consistent q" and "in_protocol q xs"
    and "(x, b, a) \<in> set (transitions i q xs)"
  shows "a = b \<or> lifecycle_step (max_retries q) i x b a"
  using assms
proof (induction xs arbitrary: q)
  case Nil
  then show ?case by simp
next
  case (Cons y ys)
  from Cons.prems(2) have py: "op_in_protocol y q" and rest: "in_protocol (step y q) ys"
    by simp_all
  have c': "consistent (step y q)" by (rule step_consistent[OF Cons.prems(1) py])
  from Cons.prems(3) consider
    (here) "x = y" "b = snapshot q i" "a = snapshot (step y q) i"
    | (later) "(x, b, a) \<in> set (transitions i (step y q) ys)"
    by auto
  then show ?case
  proof cases
    case here
    then show ?thesis using step_lifecycle[OF Cons.prems(1) py, of i] by auto
  next
    case later
    from Cons.IH[OF c' rest later] show ?thesis by (simp add: step_max_retries)
  qed
qed











subsection \<open>Sequences in pieces, and the bound on the class queues\<close>















subsection \<open>A message that fails every time it is handed out\<close>



section \<open>Facts about the validator and the gateway\<close>

lemma validate_constraints_raises: "validate_constraints message metadata = Inl AttributeError"
  by (simp add: validate_constraints_def MessageValidator_getattr_def)


lemma py_or_present:
  "py_or a b = (case a of None \<Rightarrow> b | Some s \<Rightarrow> if s = [] then b else Some s)"
  by (simp add: py_or_def)

subsection \<open>Rounding to a double\<close>

text \<open>
  An integer below \<open>2^53\<close> is a double. The quotient of a number of microseconds by
  \<open>10^6\<close>, rounded to a double, is below 1 exactly when the number is below \<open>10^6\<close>.
\<close>


lemma round_half_even_of_int: "round_half_even (of_int k) = k"
  by (simp add: round_half_even_def)

lemma to_double_of_int:
  assumes "0 < n" and "n < 2 ^ 53"
  shows "to_double (of_int n) = of_int n"
proof -
  let ?x = "of_int n :: real"
  let ?e = "\<lfloor>log 2 \<bar>?x\<bar>\<rfloor>"
  have x1: "1 \<le> ?x" using assms(1) by simp
  have xlt: "?x < 2 ^ 53" using assms(2) by (metis of_int_less_iff of_int_numeral of_int_power)
  have "log 2 ?x < 53"
    using xlt x1 by (simp add: log_less_iff powr_realpow)
  then have e52: "?e \<le> 52" using x1 by (simp add: floor_le_iff)
  define m where "m = nat (52 - ?e)"
  have p: "(2::real) powi (?e - 52) = 1 / 2 ^ m"
    using e52 by (simp add: m_def power_int_def field_simps)
  have q: "?x / 2 powi (?e - 52) = of_int (n * 2 ^ m)"
    by (simp add: p)
  have "to_double ?x = of_int (round_half_even (of_int (n * 2 ^ m))) * (1 / 2 ^ m)"
    using assms(1) unfolding to_double_def Let_def q p by simp
  also have "\<dots> = ?x"
  proof -
    have r: "round_half_even (real_of_int n * 2 ^ m) = n * 2 ^ m"
      using round_half_even_of_int[of "n * 2 ^ m"] by simp
    show ?thesis by (simp add: r)
  qed
  finally show ?thesis .
qed


lemma round_half_even_bounds:
  "\<lfloor>y\<rfloor> \<le> round_half_even y" "round_half_even y \<le> \<lfloor>y\<rfloor> + 1"
  by (simp_all add: round_half_even_def Let_def)

lemma powi_floor_log_le:
  assumes "0 < x"
  shows "2 powi \<lfloor>log 2 x\<rfloor> \<le> x"
proof -
  have "real_of_int \<lfloor>log 2 x\<rfloor> \<le> log 2 x" by simp
  then have "2 powr (real_of_int \<lfloor>log 2 x\<rfloor>) \<le> 2 powr (log 2 x)"
    by (simp only: powr_le_cancel_iff[of 2] one_less_numeral_iff semiring_norm)
  then show ?thesis using assms by (simp add: powr_real_of_int')
qed

lemma to_double_nonpos: assumes "x \<le> 0" shows "to_double x \<le> 0"
proof (cases "x = 0")
  case True then show ?thesis by (simp add: to_double_def)
next
  case False
  then have neg: "x < 0" using assms by simp
  let ?e = "\<lfloor>log 2 \<bar>x\<bar>\<rfloor> - 52"
  have pos: "(0::real) < 2 powi ?e" by simp
  have "x / 2 powi ?e < 0" using neg pos by (simp add: divide_neg_pos)
  then have "\<lfloor>x / 2 powi ?e\<rfloor> \<le> -1" by (simp add: floor_le_iff)
  then have "round_half_even (x / 2 powi ?e) \<le> 0"
    using round_half_even_bounds(2)[of "x / 2 powi ?e"] by linarith
  then have "real_of_int (round_half_even (x / 2 powi ?e)) * 2 powi ?e \<le> 0"
    using pos by (simp add: mult_le_0_iff)
  then show ?thesis using False by (simp add: to_double_def Let_def)
qed

lemma to_double_ge_one: assumes "1 \<le> x" shows "1 \<le> to_double x"
proof -
  let ?L = "\<lfloor>log 2 \<bar>x\<bar>\<rfloor>"
  let ?e = "?L - 52"
  have x0: "0 < x" "\<bar>x\<bar> = x" using assms by simp_all
  have L0: "0 \<le> ?L" using assms x0 by (simp add: le_floor_iff)
  have "2 powi ?L \<le> x" using powi_floor_log_le[of x] x0 by simp
  then have "2 powi ?L / 2 powi ?e \<le> x / 2 powi ?e"
    by (simp add: divide_right_mono)
  moreover have "(2::real) powi ?L / 2 powi ?e = 2 ^ 52"
    by (simp add: power_int_diff[symmetric])
  ultimately have "(2::real) ^ 52 \<le> x / 2 powi ?e" by simp
  then have "(2::int) ^ 52 \<le> \<lfloor>x / 2 powi ?e\<rfloor>" by (simp add: le_floor_iff)
  then have "(2::int) ^ 52 \<le> round_half_even (x / 2 powi ?e)"
    using round_half_even_bounds(1)[of "x / 2 powi ?e"] by linarith
  then have "(2::real) ^ 52 \<le> real_of_int (round_half_even (x / 2 powi ?e))"
    by (metis of_int_le_iff of_int_numeral of_int_power)
  then have "(2::real) ^ 52 * 2 powi ?e \<le> real_of_int (round_half_even (x / 2 powi ?e)) * 2 powi ?e"
    by (simp add: mult_right_mono)
  moreover have "(2::real) ^ 52 * 2 powi ?e = 2 powi ?L"
    by (simp add: power_int_diff field_simps)
  moreover have "(1::real) \<le> 2 powi ?L" using L0 by (simp add: one_le_power_int)
  ultimately have "1 \<le> real_of_int (round_half_even (x / 2 powi ?e)) * 2 powi ?e" by linarith
  then show ?thesis using x0 by (simp add: to_double_def Let_def)
qed

lemma to_double_below_one:
  assumes "0 < x" and "x \<le> 999999 / 1000000"
  shows "to_double x < 1"
proof -
  let ?L = "\<lfloor>log 2 \<bar>x\<bar>\<rfloor>"
  let ?e = "?L - 52"
  have ax: "\<bar>x\<bar> = x" using assms by simp
  have "log 2 x < 0" using assms by (simp add: log_less_iff)
  then have L: "?L \<le> -1" by (simp add: ax floor_le_iff)
  have pos: "(0::real) < 2 powi ?e" by simp
  have small: "(2::real) powi ?e \<le> 2 powi (-53)"
  proof (rule power_int_increasing)
    show "?e \<le> -53" using L by simp
    show "(1::real) \<le> 2" by simp
  qed
  have "real_of_int (round_half_even (x / 2 powi ?e)) \<le> x / 2 powi ?e + 1"
  proof -
    have "real_of_int (round_half_even (x / 2 powi ?e)) \<le> real_of_int (\<lfloor>x / 2 powi ?e\<rfloor> + 1)"
      using round_half_even_bounds(2)[of "x / 2 powi ?e"] by (simp only: of_int_le_iff)
    then have a: "real_of_int (round_half_even (x / 2 powi ?e)) \<le> real_of_int \<lfloor>x / 2 powi ?e\<rfloor> + 1"
      by simp
    have b: "real_of_int \<lfloor>x / 2 powi ?e\<rfloor> \<le> x / 2 powi ?e" by (rule of_int_floor_le)
    from a b show ?thesis by linarith
  qed
  then have "real_of_int (round_half_even (x / 2 powi ?e)) * 2 powi ?e \<le> (x / 2 powi ?e + 1) * 2 powi ?e"
    using pos by (simp add: mult_right_mono)
  also have "\<dots> = x + 2 powi ?e" using pos by (simp add: field_simps)
  also have "\<dots> \<le> 999999 / 1000000 + 2 powi (-53)" using assms(2) small by linarith
  also have "\<dots> < 1" by (simp add: power_int_minus)
  finally show ?thesis using assms(1) by (simp add: to_double_def Let_def)
qed

lemma total_seconds_less_one: "total_seconds us < 1 \<longleftrightarrow> us < 1000000"
proof
  assume a: "total_seconds us < 1"
  show "us < 1000000"
  proof (rule ccontr)
    assume "\<not> us < 1000000"
    then have "1 \<le> real_of_int us / 1000000" by simp
    from to_double_ge_one[OF this] a show False by (simp add: total_seconds_def)
  qed
next
  assume a: "us < 1000000"
  show "total_seconds us < 1"
  proof (cases "us \<le> 0")
    case True
    then have "real_of_int us / 1000000 \<le> 0" by simp
    from to_double_nonpos[OF this] show ?thesis by (simp add: total_seconds_def)
  next
    case False
    then have p: "0 < real_of_int us / 1000000" by simp
    have "us \<le> 999999" using a by simp
    then have "real_of_int us \<le> 999999" by (metis of_int_le_iff of_int_numeral)
    then have "real_of_int us / 1000000 \<le> 999999 / 1000000" by simp
    from to_double_below_one[OF p this] show ?thesis by (simp add: total_seconds_def)
  qed
qed

lemma ten_seconds_in_ms: "to_double (total_seconds 10000000 * 1000) = 10000"
proof -
  have a: "total_seconds 10000000 = 10"
    using to_double_of_int[of 10] by (simp add: total_seconds_def)
  show ?thesis unfolding a using to_double_of_int[of 10000] by simp
qed

section \<open>The claims about the queue\<close>

lemmas queue_eval =
  default_queue_def PriorityMessageQueue_init_def QueueStats_init_def enqueue_def dequeue_def
  all_priorities_def dequeue_loop.simps mark_completed_def mark_failed_def
  update_message_state_def update_processing_time_def pq_full_def pq_empty_def pq_put_def Let_def

text \<open>
  Claim C1, as stated, fails in its second half. Each class queue is an
  \<^verbatim>\<open>asyncio.PriorityQueue\<close> of tuples \<^verbatim>\<open>(priority.value, message_id)\<close>; within one class
  the first components are equal, so the heap hands out the entries in the order of
  their id strings, not in the order of arrival. Two CRITICAL messages are enqueued at
  times 100 and 200; \<^verbatim>\<open>dequeue\<close> returns the second one, whose id is the smaller
  string.
\<close>

theorem fifo_within_class_fails:
  "timestamp (the (messages two_critical ''7213908855012345678'')) = 100 \<and>
   timestamp (the (messages two_critical ''1893245500766123456'')) = 200 \<and>
   message_states two_critical ''7213908855012345678'' = Some PENDING \<and>
   message_states two_critical ''1893245500766123456'' = Some PENDING \<and>
   priority (the (messages two_critical ''7213908855012345678'')) = CRITICAL \<and>
   priority (the (messages two_critical ''1893245500766123456'')) = CRITICAL \<and>
   map_option msg_id (fst (dequeue 300 two_critical)) = Some ''1893245500766123456''"
  by (simp add: two_critical_def queue_eval)

text \<open>
  Claim C1, amended. In every queue reached within the protocol from a new queue,
  whenever some message is waiting, \<^verbatim>\<open>dequeue\<close> returns a waiting message and marks it
  PROCESSING, and that message is least among all waiting messages in the order of
  (priority value, id): its class is at least as urgent as that of every waiting
  message (so a CRITICAL message goes before any HIGH, MEDIUM or LOW one, whenever it
  was enqueued), and within its class it has the least id string.
\<close>

theorem dequeue_takes_least_waiting:
  assumes prot: "in_protocol (PriorityMessageQueue_init sz mr tmo bs) ops"
    and q: "q = run (PriorityMessageQueue_init sz mr tmo bs) ops"
    and m: "messages q i = Some m" and w: "waiting q i"
  shows "\<exists>m0. messages q (msg_id m0) = Some m0 \<and> waiting q (msg_id m0) \<and>
     fst (dequeue now q) = Some (m0\<lparr>processing_started := Some now\<rparr>) \<and>
     message_states (snd (dequeue now q)) (msg_id m0) = Some PROCESSING \<and>
     priority_value (priority m0) \<le> priority_value (priority m) \<and>
     (priority m0 = priority m \<longrightarrow> msg_id m0 \<le> i)"
proof -
  have c: "consistent q"
    unfolding q by (rule run_consistent[OF init_consistent prot])
  note t = consistentD(1)[OF c] and qo = consistentD(2)[OF c]
  let ?P = "\<lambda>p. queues q p \<noteq> []"
  have inq: "(priority_value (priority m), i) \<in> set (queues q (priority m))"
    by (rule queues_okD(6)[OF qo m w])
  then have ne: "?P (priority m)" by auto
  obtain p where p: "find ?P all_priorities = Some p"
    using find_all_priorities_None[of ?P "priority m"] ne
    by (cases "find ?P all_priorities") auto
  then have "queues q p \<noteq> []" by (auto dest: find_Some_iff[THEN iffD1])
  then obtain e es where qp: "queues q p = e # es" by (cases "queues q p") auto
  then have ein: "e \<in> set (queues q p)" by simp
  from queues_okD(5)[OF qo ein] obtain m0
    where m0: "messages q (snd e) = Some m0" "priority m0 = p" by blast
  have id0: "msg_id m0 = snd e" by (rule tracking_okD(3)[OF t m0(1)])
  have eq: "dequeue now q = dequeue_loop now [p] q"
    by (simp add: dequeue_def dequeue_loop_find[OF qo] p)
  note f = pop_fields[OF qp m0(1), of now]
  have le: "priority_value (priority m0) \<le> priority_value (priority m)"
    unfolding m0(2) by (rule find_all_priorities_least[OF p ne])
  have tie: "msg_id m0 \<le> i" if "priority m0 = priority m"
  proof -
    have "(priority_value p, i) \<in> set (e # es)" using inq that m0(2) qp by simp
    moreover have "sorted (e # es)" using queues_okD(1)[OF qo, of p] qp by simp
    ultimately have "e \<le> (priority_value p, i)" by auto
    moreover have "fst e = priority_value p" by (rule queues_okD(3)[OF qo ein])
    ultimately have "snd e \<le> i" by (cases e) simp
    then show ?thesis by (simp add: id0)
  qed
  have "messages q (msg_id m0) = Some m0" using m0(1) id0 by simp
  moreover have "waiting q (msg_id m0)" using queues_okD(4)[OF qo ein] id0 by simp
  moreover have "fst (dequeue now q) = Some (m0\<lparr>processing_started := Some now\<rparr>)"
    unfolding eq by (rule f(1))
  moreover have "message_states (snd (dequeue now q)) (msg_id m0) = Some PROCESSING"
    unfolding eq by (simp add: f(3) id0)
  ultimately show ?thesis using le tie by blast
qed

theorem dequeue_takes_least_waiting_witness:
  "in_protocol (PriorityMessageQueue_init 10000 3 30 10 :: string PriorityMessageQueue)
     [Enqueue ''1893245500766123456'' 100 ''routine'' LOW,
      Enqueue ''7213908855012345678'' 200 ''urgent'' CRITICAL] \<and>
   messages low_then_critical ''1893245500766123456'' =
     Some \<lparr>msg_id = ''1893245500766123456'', content = ''routine'', priority = LOW,
           timestamp = 100, retries = 0, processing_started = None,
           processing_completed = None, error = None\<rparr> \<and>
   waiting low_then_critical ''1893245500766123456'' \<and>
   map_option priority (fst (dequeue 300 low_then_critical)) = Some CRITICAL \<and>
   (\<exists>m0. fst (dequeue 300 low_then_critical) = Some (m0\<lparr>processing_started := Some 300\<rparr>) \<and>
         priority_value (priority m0) \<le> priority_value LOW)"
proof -
  have p: "in_protocol (PriorityMessageQueue_init 10000 3 30 10 :: string PriorityMessageQueue)
     [Enqueue ''1893245500766123456'' 100 ''routine'' LOW,
      Enqueue ''7213908855012345678'' 200 ''urgent'' CRITICAL]"
    by (simp add: queue_eval)
  have q: "low_then_critical = run (PriorityMessageQueue_init 10000 3 30 10)
     [Enqueue ''1893245500766123456'' 100 ''routine'' LOW,
      Enqueue ''7213908855012345678'' 200 ''urgent'' CRITICAL]"
    by (simp add: low_then_critical_def default_queue_def)
  have m: "messages low_then_critical ''1893245500766123456'' =
     Some \<lparr>msg_id = ''1893245500766123456'', content = ''routine'', priority = LOW,
           timestamp = 100, retries = 0, processing_started = None,
           processing_completed = None, error = None\<rparr>"
    by (simp add: low_then_critical_def queue_eval)
  have w: "waiting low_then_critical ''1893245500766123456''"
    by (simp add: waiting_def low_then_critical_def queue_eval)
  have d: "map_option priority (fst (dequeue 300 low_then_critical)) = Some CRITICAL"
    by (simp add: low_then_critical_def queue_eval)
  from dequeue_takes_least_waiting[OF p q m w, of 300]
  have "\<exists>m0. fst (dequeue 300 low_then_critical) = Some (m0\<lparr>processing_started := Some 300\<rparr>) \<and>
         priority_value (priority m0) \<le> priority_value LOW"
    by auto
  then show ?thesis using p m w d by blast
qed

text \<open>
  Claim C2, as stated, fails: \<^verbatim>\<open>mark_failed\<close> leaves a retried message in state
  RETRYING and puts its id back into the class queue, and the next \<^verbatim>\<open>dequeue\<close> moves
  it from RETRYING to PROCESSING. No call ever moves a message from RETRYING to PENDING.
\<close>

theorem retry_skips_pending:
  "transitions ''7213908855012345678'' default_queue
     [Enqueue ''7213908855012345678'' 100 ''speed=50'' HIGH, Dequeue 200,
      MarkFailed ''7213908855012345678'' ''oracle failed'', Dequeue 400] =
   [(Enqueue ''7213908855012345678'' 100 ''speed=50'' HIGH,
       (None, None), (Some PENDING, Some 0)),
    (Dequeue 200, (Some PENDING, Some 0), (Some PROCESSING, Some 0)),
    (MarkFailed ''7213908855012345678'' ''oracle failed'',
       (Some PROCESSING, Some 0), (Some RETRYING, Some 1)),
    (Dequeue 400, (Some RETRYING, Some 1), (Some PROCESSING, Some 1))] \<and>
   message_states retrying_once ''7213908855012345678'' = Some RETRYING \<and>
   message_states (snd (dequeue 400 retrying_once)) ''7213908855012345678'' = Some PROCESSING"
  by (simp add: retrying_once_def snapshot_def queue_eval)

text \<open>
  Claim C2, amended. Along every call sequence within the protocol from a new queue, each
  call either leaves the state and retry count of a message as they were or makes one
  of the changes of \<open>lifecycle_step\<close>: untracked to PENDING (enqueue), PENDING or
  RETRYING to PROCESSING (dequeue), PROCESSING to COMPLETED (mark_completed),
  PROCESSING to RETRYING with the retry count raised by one (mark_failed with retries
  left), PROCESSING to FAILED (mark_failed with retries exhausted).
\<close>

theorem lifecycle_transitions:
  assumes "in_protocol (PriorityMessageQueue_init sz mr tmo bs) ops"
    and "(x, b, a) \<in> set (transitions i (PriorityMessageQueue_init sz mr tmo bs) ops)"
  shows "a = b \<or> lifecycle_step mr i x b a"
  using transitions_lifecycle[OF init_consistent assms]
  by (simp add: PriorityMessageQueue_init_def)

theorem lifecycle_transitions_witness:
  "in_protocol (PriorityMessageQueue_init 10000 3 30 10 :: string PriorityMessageQueue)
     [Enqueue ''7213908855012345678'' 100 ''speed=50'' HIGH, Dequeue 200,
      MarkFailed ''7213908855012345678'' ''oracle failed'', Dequeue 400] \<and>
   (Dequeue 400, (Some RETRYING, Some 1), (Some PROCESSING, Some 1)) \<in>
     set (transitions ''7213908855012345678''
       (PriorityMessageQueue_init 10000 3 30 10 :: string PriorityMessageQueue)
       [Enqueue ''7213908855012345678'' 100 ''speed=50'' HIGH, Dequeue 200,
        MarkFailed ''7213908855012345678'' ''oracle failed'', Dequeue 400]) \<and>
   lifecycle_step 3 ''7213908855012345678'' (Dequeue 400 :: string op)
     (Some RETRYING, Some 1) (Some PROCESSING, Some 1)"
proof -
  have p: "in_protocol (PriorityMessageQueue_init 10000 3 30 10 :: string PriorityMessageQueue)
     [Enqueue ''7213908855012345678'' 100 ''speed=50'' HIGH, Dequeue 200,
      MarkFailed ''7213908855012345678'' ''oracle failed'', Dequeue 400]"
    by (simp add: queue_eval)
  have t: "(Dequeue 400, (Some RETRYING, Some 1), (Some PROCESSING, Some 1)) \<in>
     set (transitions ''7213908855012345678''
       (PriorityMessageQueue_init 10000 3 30 10 :: string PriorityMessageQueue)
       [Enqueue ''7213908855012345678'' 100 ''speed=50'' HIGH, Dequeue 200,
        MarkFailed ''7213908855012345678'' ''oracle failed'', Dequeue 400])"
    by (simp add: snapshot_def queue_eval)
  from lifecycle_transitions[OF p t]
  have "lifecycle_step 3 ''7213908855012345678'' (Dequeue 400 :: string op)
     (Some RETRYING, Some 1) (Some PROCESSING, Some 1)"
    by simp
  then show ?thesis using p t by blast
qed

text \<open>
  Claim C3, as stated, fails: it speaks of every message whose processing attempts all
  end in \<^verbatim>\<open>mark_failed\<close>, whatever else is called. \<^verbatim>\<open>mark_failed\<close> does not look at the
  state of the message, so a second failure report for a message that is already
  FAILED is accepted and raises \<^verbatim>\<open>total_failed\<close> again. With the default limit of 3, the
  message is handed out four times and each attempt ends in \<^verbatim>\<open>mark_failed\<close>; one more
  \<^verbatim>\<open>mark_failed\<close> returns normally, and \<^verbatim>\<open>total_failed\<close> was raised twice for the one
  failed message.
\<close>

theorem second_failure_report_counts_again:
  "filter (is_completion_of ''7213908855012345678'') reported_twice = [] \<and>
   dequeued default_queue reported_twice =
     [Some ''7213908855012345678'', Some ''7213908855012345678'',
      Some ''7213908855012345678'', Some ''7213908855012345678''] \<and>
   failures_of ''7213908855012345678'' reported_twice = 5 \<and>
   in_protocol default_queue always_failing \<and>
   in_protocol default_queue reported_twice = False \<and>
   message_states (run default_queue always_failing) ''7213908855012345678'' = Some FAILED \<and>
   fst (mark_failed ''7213908855012345678'' ''oracle failed'' (run default_queue always_failing))
     = Returned () \<and>
   message_states (run default_queue reported_twice) ''7213908855012345678'' = Some FAILED \<and>
   max_retries default_queue = 3 \<and>
   retried_for ''7213908855012345678'' default_queue reported_twice = 3 \<and>
   failed_for ''7213908855012345678'' default_queue reported_twice = 2 \<and>
   total_failed (stats (run default_queue reported_twice)) = 2 \<and>
   states (stats (run default_queue reported_twice)) FAILED = 1"
  by (simp add: reported_twice_def always_failing_def failures_of_def queue_eval)



text \<open>
  Claim C4, as stated, fails: it quantifies over any sequence of the four operations,
  and a second \<^verbatim>\<open>mark_completed\<close> of the same id counts the message as processed
  twice. After enqueue, dequeue and two \<^verbatim>\<open>mark_completed\<close> calls, one message was
  received, two were processed and none is in flight.
\<close>

theorem double_completion_breaks_balance:
  "completed_twice = snd (mark_completed ''7213908855012345678'' 400 completed_once) \<and>
   fst (mark_completed ''7213908855012345678'' 400 completed_once) = Returned () \<and>
   total_received (stats completed_twice) = 1 \<and>
   total_processed (stats completed_twice) = 2 \<and>
   total_failed (stats completed_twice) = 0 \<and>
   {i. message_states completed_twice i = Some PENDING \<or>
       message_states completed_twice i = Some PROCESSING \<or>
       message_states completed_twice i = Some RETRYING} = {} \<and>
   total_received (stats completed_twice) \<noteq>
     total_processed (stats completed_twice) + total_failed (stats completed_twice) +
     int (card {i. message_states completed_twice i = Some PENDING \<or>
                   message_states completed_twice i = Some PROCESSING \<or>
                   message_states completed_twice i = Some RETRYING})"
proof -
  have ms: "message_states completed_twice = [''7213908855012345678'' \<mapsto> COMPLETED]"
    by (simp add: completed_twice_def queue_eval)
  have e: "{i. message_states completed_twice i = Some PENDING \<or>
       message_states completed_twice i = Some PROCESSING \<or>
       message_states completed_twice i = Some RETRYING} = {}"
    unfolding ms by auto
  have c: "total_received (stats completed_twice) = 1" "total_processed (stats completed_twice) = 2"
    "total_failed (stats completed_twice) = 0"
    by (simp_all add: completed_twice_def queue_eval)
  have r: "completed_twice = snd (mark_completed ''7213908855012345678'' 400 completed_once)"
    "fst (mark_completed ''7213908855012345678'' 400 completed_once) = Returned ()"
    by (simp_all add: completed_twice_def completed_once_def queue_eval)
  show ?thesis unfolding e using c r by simp
qed

text \<open>
  Claim C4, amended. In every queue reached from a new queue by a call sequence within
  the protocol (fresh ids, no suspended \<^verbatim>\<open>put\<close>, \<^verbatim>\<open>mark_completed\<close> and \<^verbatim>\<open>mark_failed\<close>
  only on PROCESSING messages), the tracked ids are exactly the ids with a state, every
  state bucket of the statistics equals the number of ids in that state,
  \<^verbatim>\<open>total_processed\<close> and \<^verbatim>\<open>total_failed\<close> count the COMPLETED and the FAILED ids, and
  \<^verbatim>\<open>total_received\<close> is \<^verbatim>\<open>total_processed + total_failed\<close> plus the number of ids that
  are PENDING, PROCESSING or RETRYING.
\<close>

theorem protocol_keeps_counters_balanced:
  assumes "in_protocol (PriorityMessageQueue_init sz mr tmo bs) ops"
    and "q = run (PriorityMessageQueue_init sz mr tmo bs) ops"
  shows "dom (message_states q) = dom (messages q) \<and>
     (\<forall>i m. messages q i = Some m \<longrightarrow> (\<exists>!s. message_states q i = Some s)) \<and>
     (\<forall>s. states (stats q) s = int (card {i. message_states q i = Some s})) \<and>
     total_processed (stats q) = int (card {i. message_states q i = Some COMPLETED}) \<and>
     total_failed (stats q) = int (card {i. message_states q i = Some FAILED}) \<and>
     total_received (stats q) =
       total_processed (stats q) + total_failed (stats q) +
       int (card {i. message_states q i = Some PENDING \<or> message_states q i = Some PROCESSING \<or>
                     message_states q i = Some RETRYING})"
proof -
  have c: "consistent q"
    unfolding assms(2) by (rule run_consistent[OF init_consistent assms(1)])
  note t = consistentD(1)[OF c] and so = consistentD(3)[OF c]
  have fin: "finite (dom (message_states q))" using tracking_okD(1,2)[OF t] by simp
  have b: "bucket (message_states q) s = {i. message_states q i = Some s}" for s
    by (simp add: bucket_def)
  have 1: "dom (message_states q) = dom (messages q)" by (rule tracking_okD(2)[OF t])
  have 0: "\<forall>i m. messages q i = Some m \<longrightarrow> (\<exists>!s. message_states q i = Some s)"
  proof (intro allI impI)
    fix i m assume "messages q i = Some m"
    then have "i \<in> dom (message_states q)" using 1 by auto
    then show "\<exists>!s. message_states q i = Some s" by auto
  qed
  have 2: "\<forall>s. states (stats q) s = int (card {i. message_states q i = Some s})"
    using stats_okD(1)[OF so] by (simp add: b)
  have 3: "total_processed (stats q) = int (card {i. message_states q i = Some COMPLETED})"
    using stats_okD(3)[OF so] by (simp add: b)
  have 4: "total_failed (stats q) = int (card {i. message_states q i = Some FAILED})"
    using stats_okD(4)[OF so] by (simp add: b)
  have 5: "total_received (stats q) =
       total_processed (stats q) + total_failed (stats q) +
       int (card {i. message_states q i = Some PENDING \<or> message_states q i = Some PROCESSING \<or>
                     message_states q i = Some RETRYING})"
    using stats_okD(2,3,4)[OF so] card_dom_split[OF fin] by simp
  show ?thesis using 1 0 2 3 4 5 by (intro conjI) assumption+
qed

theorem protocol_keeps_counters_balanced_witness:
  "in_protocol (PriorityMessageQueue_init 10000 3 30 10 :: string PriorityMessageQueue)
     [Enqueue ''7213908855012345678'' 100 ''speed=50'' HIGH, Dequeue 200,
      MarkCompleted ''7213908855012345678'' 300] \<and>
   total_received (stats completed_once) =
       total_processed (stats completed_once) + total_failed (stats completed_once) +
       int (card {i. message_states completed_once i = Some PENDING \<or>
                     message_states completed_once i = Some PROCESSING \<or>
                     message_states completed_once i = Some RETRYING})"
proof -
  have p: "in_protocol (PriorityMessageQueue_init 10000 3 30 10 :: string PriorityMessageQueue)
     [Enqueue ''7213908855012345678'' 100 ''speed=50'' HIGH, Dequeue 200,
      MarkCompleted ''7213908855012345678'' 300]"
    by (simp add: queue_eval)
  have q: "completed_once = run (PriorityMessageQueue_init 10000 3 30 10)
     [Enqueue ''7213908855012345678'' 100 ''speed=50'' HIGH, Dequeue 200,
      MarkCompleted ''7213908855012345678'' 300]"
    by (simp add: completed_once_def default_queue_def)
  show ?thesis
    using p protocol_keeps_counters_balanced[OF p q] by blast
qed

text \<open>
  Claim C5, as stated, fails: \<^verbatim>\<open>mark_completed\<close> checks only that the id is tracked, never
  the message's state. After enqueue, dequeue and a first \<^verbatim>\<open>mark_completed\<close>, a second
  call on the same id returns normally, raises \<^verbatim>\<open>total_processed\<close> from 1 to 2 and records
  a second processing time.
\<close>

theorem second_mark_completed_counts_again:
  "message_states completed_once ''7213908855012345678'' = Some COMPLETED \<and>
   total_processed (stats completed_once) = 1 \<and>
   fst (mark_completed ''7213908855012345678'' 400 completed_once) = Returned () \<and>
   total_processed (stats (snd (mark_completed ''7213908855012345678'' 400 completed_once))) = 2 \<and>
   processing_times (stats completed_once) = [100] \<and>
   processing_times (stats (snd (mark_completed ''7213908855012345678'' 400 completed_once))) = [100, 200]"
  by (simp add: completed_once_def queue_eval)

text \<open>
  Claim C5, amended. For a tracked id in state COMPLETED whose message has been dequeued
  (\<^verbatim>\<open>processing_started\<close> is set), a further \<^verbatim>\<open>mark_completed\<close> returns normally,
  adds one to \<^verbatim>\<open>total_processed\<close>, records one more processing time and overwrites
  \<^verbatim>\<open>processing_completed\<close>; the message's state and every state bucket, the queues and
  the counters \<^verbatim>\<open>total_received\<close>, \<^verbatim>\<open>total_failed\<close> and \<^verbatim>\<open>total_retried\<close> stay as
  they were.
\<close>

theorem mark_completed_on_completed:
  assumes "messages q i = Some m" and "message_states q i = Some COMPLETED"
    and "processing_started m = Some t"
  shows "fst (mark_completed i now q) = Returned () \<and>
     total_processed (stats (snd (mark_completed i now q))) = total_processed (stats q) + 1 \<and>
     processing_times (stats (snd (mark_completed i now q))) =
       processing_times (update_processing_time (now - t) (stats q)) \<and>
     messages (snd (mark_completed i now q)) = (messages q)(i \<mapsto> m\<lparr>processing_completed := Some now\<rparr>) \<and>
     message_states (snd (mark_completed i now q)) = message_states q \<and>
     states (stats (snd (mark_completed i now q))) = states (stats q) \<and>
     queues (snd (mark_completed i now q)) = queues q \<and>
     total_received (stats (snd (mark_completed i now q))) = total_received (stats q) \<and>
     total_failed (stats (snd (mark_completed i now q))) = total_failed (stats q) \<and>
     total_retried (stats (snd (mark_completed i now q))) = total_retried (stats q)"
proof -
  note f = mark_completed_fields[OF assms(1,3), of now]
  have ms: "message_states (snd (mark_completed i now q)) = message_states q"
    using assms(2) by (simp add: f(3) map_upd_triv)
  have st: "states (stats (snd (mark_completed i now q))) = states (stats q)"
    by (rule ext) (simp add: f(11) assms(2))
  show ?thesis
    using f(1,8,12,2) ms st f(4,7,9,10) by (intro conjI) assumption+
qed

theorem mark_completed_on_completed_witness:
  "messages completed_once ''7213908855012345678'' =
     Some \<lparr>msg_id = ''7213908855012345678'', content = ''speed=50'', priority = HIGH,
           timestamp = 100, retries = 0, processing_started = Some 200,
           processing_completed = Some 300, error = None\<rparr> \<and>
   message_states completed_once ''7213908855012345678'' = Some COMPLETED \<and>
   total_processed (stats (snd (mark_completed ''7213908855012345678'' 400 completed_once))) =
     total_processed (stats completed_once) + 1"
proof -
  have a: "messages completed_once ''7213908855012345678'' =
     Some \<lparr>msg_id = ''7213908855012345678'', content = ''speed=50'', priority = HIGH,
           timestamp = 100, retries = 0, processing_started = Some 200,
           processing_completed = Some 300, error = None\<rparr>"
    by (simp add: completed_once_def queue_eval)
  have b: "message_states completed_once ''7213908855012345678'' = Some COMPLETED"
    by (simp add: completed_once_def queue_eval)
  show ?thesis
    using a b mark_completed_on_completed[OF a b, of 200 400] by simp
qed

text \<open>
  Claim C10. For a message id that is not a key of \<^verbatim>\<open>self.messages\<close>, both
  \<^verbatim>\<open>mark_completed\<close> and \<^verbatim>\<open>mark_failed\<close> return normally and leave the whole queue
  object as it was: no counter, state bucket, stored message or per-class queue changes.
\<close>

theorem untracked_id_is_noop:
  assumes "messages q i = None"
  shows "mark_completed i now q = (Returned (), q) \<and>
         mark_failed i err q = (Returned (), q)"
  using assms by (simp add: mark_completed_def mark_failed_def)

theorem untracked_id_is_noop_witness:
  "messages one_pending ''42'' = None \<and>
   mark_completed ''42'' 500 one_pending = (Returned (), one_pending) \<and>
   mark_failed ''42'' ''boom'' one_pending = (Returned (), one_pending)"
proof -
  have h: "messages one_pending ''42'' = None"
    by (simp add: one_pending_def queue_eval)
  show ?thesis using h untracked_id_is_noop[OF h, of 500 "''boom''"] by simp
qed

section \<open>The claim about the validator\<close>

text \<open>
  Claim C7 says that \<^verbatim>\<open>validate_message\<close> returns \<^verbatim>\<open>False\<close> with the reasons of all
  failed checks. For a position update that is ten seconds old (the limit is five) and
  lacks \<^verbatim>\<open>position\<close> and \<^verbatim>\<open>direction\<close>, the timing and the structure check do
  produce their reasons, but the call raises \<^verbatim>\<open>AttributeError\<close> in
  \<^verbatim>\<open>_validate_constraints\<close> before the reasons are joined, and returns nothing.
\<close>

theorem stale_incomplete_message_raises:
  "validate_timing 10000000 (MessageValidator_init 5000) stale_metadata =
     (False, [MessageTooOld 10000000]) \<and>
   validate_structure stale_incomplete_message POSITION_UPDATE =
     (False, [MissingRequiredFields {''position'', ''direction''}]) \<and>
   validate_message 10000000 (MessageValidator_init 5000) stale_incomplete_message stale_metadata =
     (Inl AttributeError, MessageValidator_init 5000)"
proof -
  have t: "validate_timing 10000000 (MessageValidator_init 5000) stale_metadata =
     (False, [MessageTooOld 10000000])"
    by (simp add: validate_timing_def stale_metadata_def MessageValidator_init_def
        ten_seconds_in_ms)
  have s: "validate_structure stale_incomplete_message POSITION_UPDATE =
     (False, [MissingRequiredFields {''position'', ''direction''}])"
    by (auto simp add: validate_structure_def stale_incomplete_message_def)
  have m: "validate_message 10000000 (MessageValidator_init 5000) stale_incomplete_message stale_metadata =
     (Inl AttributeError, MessageValidator_init 5000)"
    by (simp add: validate_message_def validate_constraints_raises)
  show ?thesis using t s m by (intro conjI) assumption+
qed

section \<open>The claim about the gateway\<close>

text \<open>
  Claim C8, as stated, fails in one of its parts: the threat type is computed as
  \<^verbatim>\<open>detection.threat_type or analysis.anomaly_type\<close>, and Python's \<^verbatim>\<open>or\<close> passes over
  a left operand that is present but empty. With all three stages run and a detector
  whose threat type is the empty string, the combined result and the response carry
  the analyzer's anomaly type, not the detector's threat type.
\<close>

theorem empty_threat_type_falls_through:
  "threat_type unnamed_detection = Some [] \<and>
   anomaly_type escalating_analysis = Some ''behavioral'' \<and>
   confidence unnamed_detection > analysis_threshold example_config \<and>
   anomaly_score escalating_analysis > transform_threshold example_config \<and>
   cr_threat_type (combine_results example_config unnamed_detection escalating_analysis
                     ''embeddings'') = Some ''behavioral'' \<and>
   fst (process_single_message (\<lambda>m. unnamed_detection) (\<lambda>d m. escalating_analysis)
          (\<lambda>s. ''embeddings'') 102 example_config Map.empty example_message) =
     Inr \<lparr>resp_status = ''success'', resp_threat_detected = True, resp_confidence = 0.9,
          resp_threat_type = Some ''behavioral'', resp_recommendations = [],
          resp_timestamp = 102\<rparr>"
  by (simp add: process_single_message_def prepare_sequence_def create_response_def
      combine_results_def generate_recommendations_def py_max_def py_or_def Let_def
      unnamed_detection_def escalating_analysis_def example_config_def example_message_def)



section \<open>Further facts about the validator and the gateway\<close>

text \<open>
  No call of \<^verbatim>\<open>validate_message\<close> returns: whatever the validator, the message and the
  metadata, it raises \<^verbatim>\<open>AttributeError\<close> while \<^verbatim>\<open>_validate_constraints\<close> builds its dict
  of constraint checks, and the cache is left as it was.
\<close>

theorem validate_message_always_raises:
  "validate_message now v message metadata = (Inl AttributeError, v)"
  by (simp add: validate_message_def validate_constraints_raises)


text \<open>
  The duplicate check on its own: with the id cached at time \<open>t0\<close>, a timestamp less
  than one second after \<open>t0\<close> (or before it) is rejected as a duplicate, and a timestamp
  one second or more after \<open>t0\<close> passes.
\<close>

theorem validate_duplicates_thresholds:
  assumes "message_cache v (message_id metadata) = Some t0"
  shows "(md_timestamp metadata < t0 + 1000000 \<longrightarrow>
            validate_duplicates v metadata = (False, [DuplicateMessage (message_id metadata)])) \<and>
         (t0 + 1000000 \<le> md_timestamp metadata \<longrightarrow> validate_duplicates v metadata = (True, []))"
  using assms by (simp add: validate_duplicates_def total_seconds_less_one)

theorem validate_duplicates_thresholds_witness:
  "message_cache cached_validator (message_id (good_metadata 60500000)) = Some 60000000 \<and>
   validate_duplicates cached_validator (good_metadata 60500000) = (False, [DuplicateMessage ''msg-1'']) \<and>
   validate_duplicates cached_validator (good_metadata 62000000) = (True, [])"
proof -
  have a: "message_cache cached_validator (message_id (good_metadata 60500000)) = Some 60000000"
    by (simp add: cached_validator_def good_metadata_def)
  have b: "message_cache cached_validator (message_id (good_metadata 62000000)) = Some 60000000"
    by (simp add: cached_validator_def good_metadata_def)
  have m: "md_timestamp (good_metadata 60500000) = 60500000" "md_timestamp (good_metadata 62000000) = 62000000"
    "message_id (good_metadata 60500000) = ''msg-1''"
    by (simp_all add: good_metadata_def)
  from validate_duplicates_thresholds[OF a] validate_duplicates_thresholds[OF b]
  show ?thesis using a m by simp
qed

text \<open>
  When the detector's confidence does not exceed the analysis threshold,
  \<^verbatim>\<open>_process_single_message\<close> hands the detector's \<^verbatim>\<open>DetectionResult\<close> to
  \<^verbatim>\<open>_create_response\<close>, which subscripts it and raises \<^verbatim>\<open>TypeError\<close>.
\<close>

theorem skipped_stage_raises:
  assumes "\<not> confidence (detector message) > analysis_threshold config"
  shows "process_single_message detector analyzer transformer now config sessions message =
           (Inl TypeError, sessions)"
  using assms by (simp add: process_single_message_def create_response_def Let_def)

theorem skipped_stage_raises_witness:
  "\<not> confidence quiet_detection > analysis_threshold example_config \<and>
   process_single_message (\<lambda>m. quiet_detection) (\<lambda>d m. escalating_analysis)
      (\<lambda>s. ''embeddings'') 102 example_config Map.empty example_message =
     (Inl TypeError, Map.empty)"
proof -
  have h: "\<not> confidence ((\<lambda>m. quiet_detection) example_message) > analysis_threshold example_config"
    by (simp add: quiet_detection_def example_config_def)
  from skipped_stage_raises[OF h, of "\<lambda>d m. escalating_analysis" "\<lambda>s. ''embeddings''" 102 Map.empty]
  show ?thesis using h by simp
qed

text \<open>
  The analyzer's score over the reals, an idealisation of the floating-point
  computation: the value of \<^verbatim>\<open>_calculate_anomaly_score\<close> is the weighted
  sum of the four factors with weights 0.4, 0.3, 0.2 and 0.1, clipped to the interval
  from 0 to 1, and so lies in that interval.
\<close>

theorem anomaly_score_over_reals:
  "calculate_anomaly_score fb ft fs fc features temporal spatial context =
     clipped_to_unit_spec (weighted_sum_spec (fb features) (ft temporal) (fs spatial) (fc context)) \<and>
   0 \<le> calculate_anomaly_score fb ft fs fc features temporal spatial context \<and>
   calculate_anomaly_score fb ft fs fc features temporal spatial context \<le> 1"
  by (simp add: calculate_anomaly_score_def np_clip_def clipped_to_unit_spec_def
      weighted_sum_spec_def Let_def min_def max_def)


end
